theory Spec2Isabelle
  imports Complex_Main "HOL-Library.Multiset" "HOL-Library.List_Lexorder" "HOL-Library.Char_ord"
begin

chapter \<open>Model\<close>

section \<open>Numbers as text\<close>

text \<open>
  A byte count is a JavaScript number holding a non-negative integer that is at most
  \<open>Number.MAX_SAFE_INTEGER\<close>; it is modelled as a \<open>nat\<close>. Dividing such a number by a
  power of two is exact in double precision, so the quotients of \<open>formatSize\<close> are
  modelled as exact reals.
\<close>

definition maxSafeInteger :: nat where
  "maxSafeInteger = 2 ^ 53 - 1"

definition digitChar :: "nat \<Rightarrow> char" where
  "digitChar d = ''0123456789'' ! d"

text \<open>The decimal digits of a non-negative integer, as \<open>`${bytes}`\<close> writes them.\<close>

fun numberToString :: "nat \<Rightarrow> string" where
  "numberToString n =
     (if n < 10 then [digitChar n]
      else numberToString (n div 10) @ [digitChar (n mod 10)])"

declare numberToString.simps [simp del]

text \<open>
  \<open>Number.prototype.toFixed\<close> for \<open>0 \<le> x < 10^21\<close>: \<open>n\<close> is the integer for which
  \<open>n / 10^f - x\<close> is closest to zero, the larger one of two; its digits are padded with
  zeros to \<open>f + 1\<close> places and a point is set before the last \<open>f\<close> of them.
\<close>

definition toFixed :: "real \<Rightarrow> nat \<Rightarrow> string" where
  "toFixed x f =
     (let n = nat \<lfloor>x * 10 ^ f + 1 / 2\<rfloor>;
          m = numberToString n
      in if f = 0 then m
         else let k = length m;
                  m' = (if k \<le> f then replicate (f + 1 - k) (CHR ''0'') @ m else m);
                  k' = (if k \<le> f then f + 1 else k)
              in take (k' - f) m' @ ''.'' @ drop (k' - f) m')"

section \<open>Size formatting (src/lib/shared.ts)\<close>

definition formatSize :: "nat \<Rightarrow> string" where
  "formatSize bytes =
     (if bytes = 0 then ''0''
      else if bytes < 1024 then numberToString bytes
      else if bytes < 1024 * 1024 then toFixed (of_nat bytes / 1024) 1 @ ''K''
      else if bytes < 1024 * 1024 * 1024 then toFixed (of_nat bytes / (1024 * 1024)) 0 @ ''M''
      else toFixed (of_nat bytes / (1024 * 1024 * 1024)) 0 @ ''G'')"

section \<open>Strings and path names\<close>

text \<open>\<open>String.prototype.endsWith\<close>.\<close>

definition endsWith :: "string \<Rightarrow> string \<Rightarrow> bool" where
  "endsWith s suffix =
     (length suffix \<le> length s \<and> drop (length s - length suffix) s = suffix)"

text \<open>The test \<open>item.endsWith(".mdx") || item.endsWith(".md")\<close> of the content library.\<close>

definition hasPostExtension :: "string \<Rightarrow> bool" where
  "hasPostExtension item = (endsWith item ''.mdx'' \<or> endsWith item ''.md'')"

text \<open>
  \<open>item.replace(/\.mdx?$/, "")\<close>: the pattern matches only at the end of the string, so
  the match is a final \<open>.mdx\<close> or a final \<open>.md\<close>, and a string with neither is returned
  as it is.
\<close>

definition stripPostExtension :: "string \<Rightarrow> string" where
  "stripPostExtension item =
     (if endsWith item ''.mdx'' then take (length item - 4) item
      else if endsWith item ''.md'' then take (length item - 3) item
      else item)"

text \<open>
  \<open>path.extname\<close> of Node (POSIX): one pass over the characters from the last to the
  first. \<open>extnameLoop\<close> takes the characters still to be read, last character first, so
  that the index of the character read is the number of characters after it in the list.
\<close>

record extnameState =
  startDot :: int
  startPart :: int
  endIndex :: int
  matchedSlash :: bool
  preDotState :: int

fun extnameLoop :: "string \<Rightarrow> extnameState \<Rightarrow> extnameState" where
  "extnameLoop [] st = st"
| "extnameLoop (code # before) st =
     (let i = int (length before) in
      if code = CHR ''/'' then
        (if \<not> matchedSlash st then st\<lparr>startPart := i + 1\<rparr>
         else extnameLoop before st)
      else
        let st1 = (if endIndex st = - 1 then st\<lparr>endIndex := i + 1, matchedSlash := False\<rparr>
                   else st);
            st2 = (if code = CHR ''.'' then
                     (if startDot st1 = - 1 then st1\<lparr>startDot := i\<rparr>
                      else if preDotState st1 \<noteq> 1 then st1\<lparr>preDotState := 1\<rparr>
                      else st1)
                   else if startDot st1 \<noteq> - 1 then st1\<lparr>preDotState := - 1\<rparr>
                   else st1)
        in extnameLoop before st2)"

definition extname :: "string \<Rightarrow> string" where
  "extname path =
     (let st = extnameLoop (rev path)
                 \<lparr>startDot = - 1, startPart = 0, endIndex = - 1, matchedSlash = True,
                  preDotState = 0\<rparr>
      in if startDot st = - 1 \<or> endIndex st = - 1 \<or> preDotState st = 0 \<or>
            (preDotState st = 1 \<and> startDot st = endIndex st - 1 \<and>
             startDot st = startPart st + 1)
         then []
         else take (nat (endIndex st) - nat (startDot st)) (drop (nat (startDot st)) path))"

text \<open>
  A content path is the list of its segments, as the router passes them
  (\<open>path.join("/")\<close> makes the string); no segment is empty, \<open>.\<close> or \<open>..\<close> and none
  holds a separator. \<open>appendToPath\<close> is the string concatenation \<open>contentPath + ".mdx"\<close>,
  \<open>basename\<close> is \<open>path.basename\<close>. \<open>joinSegments\<close> is \<open>path.join\<close> of a content path and
  one more segment, which may be empty, \<open>.\<close> or \<open>..\<close> (the name of a post file without its
  extension): as \<open>path.normalize\<close> does for a relative path, \<open>normalizeLoop\<close> drops an
  empty segment and \<open>.\<close>, lets \<open>..\<close> remove the segment before it, or keeps \<open>..\<close> when
  there is none, and an empty result is \<open>.\<close>.
\<close>

fun joinSlash :: "string list \<Rightarrow> string" where
  "joinSlash [] = []"
| "joinSlash [s] = s"
| "joinSlash (s # t # ts) = s @ ''/'' @ joinSlash (t # ts)"

fun normalizeLoop :: "string list \<Rightarrow> string list \<Rightarrow> string list" where
  "normalizeLoop res [] = res"
| "normalizeLoop res (segment # segments) =
     (if segment = [] \<or> segment = ''.'' then normalizeLoop res segments
      else if segment = ''..'' then
        (if res \<noteq> [] \<and> last res \<noteq> ''..'' then normalizeLoop (butlast res) segments
         else normalizeLoop (res @ [''..'']) segments)
      else normalizeLoop (res @ [segment]) segments)"

definition joinSegments :: "string list \<Rightarrow> string" where
  "joinSegments segments =
     (let parts = normalizeLoop [] segments
      in if parts = [] then ''.'' else joinSlash parts)"

definition appendToPath :: "string list \<Rightarrow> string \<Rightarrow> string list" where
  "appendToPath contentPath ext =
     (if contentPath = [] then [ext] else butlast contentPath @ [last contentPath @ ext])"

definition basename :: "string list \<Rightarrow> string" where
  "basename contentPath = (if contentPath = [] then [] else last contentPath)"

section \<open>Dates\<close>

text \<open>
  A time value is a number of milliseconds since the epoch, within the range of \<open>Date\<close>;
  \<open>None\<close> stands for the time value \<open>NaN\<close> of an invalid \<open>Date\<close>. \<open>toISODate t\<close> is
  \<open>new Date(t).toISOString().split("T")[0]\<close>: the calendar day of \<open>t\<close> in UTC, with a
  year of four digits, or of six digits and a sign outside 0 to 9999.
\<close>

definition msPerDay :: int where
  "msPerDay = 86400000"

definition civilFromDays :: "int \<Rightarrow> int \<times> int \<times> int" where
  "civilFromDays day =
     (let z = day + 719468;
          era = z div 146097;
          doe = z - era * 146097;
          yoe = (doe - doe div 1460 + doe div 36524 - doe div 146096) div 365;
          doy = doe - (365 * yoe + yoe div 4 - yoe div 100);
          mp = (5 * doy + 2) div 153;
          d = doy - (153 * mp + 2) div 5 + 1;
          m = (if mp < 10 then mp + 3 else mp - 9);
          y = yoe + era * 400
      in (if m \<le> 2 then y + 1 else y, m, d))"

definition padStart :: "nat \<Rightarrow> string \<Rightarrow> string" where
  "padStart width s = replicate (width - length s) (CHR ''0'') @ s"

definition yearString :: "int \<Rightarrow> string" where
  "yearString y =
     (if 0 \<le> y \<and> y \<le> 9999 then padStart 4 (numberToString (nat y))
      else (if y < 0 then ''-'' else ''+'') @ padStart 6 (numberToString (nat \<bar>y\<bar>)))"

definition toISODate :: "int \<Rightarrow> string" where
  "toISODate t =
     (case civilFromDays (t div msPerDay) of
        (y, m, d) \<Rightarrow>
          yearString y @ ''-'' @ padStart 2 (numberToString (nat m)) @ ''-'' @
          padStart 2 (numberToString (nat d)))"

section \<open>Data model (src/lib/shared.ts)\<close>

record DirectoryEntry =
  name :: string
  isDirectory :: bool
  extension :: string
  date :: string
  size' :: nat
  description :: string
  href :: string

record PostData =
  title :: string
  description :: string
  date :: string
  content :: string
  slug :: string

section \<open>The content tree\<close>

text \<open>
  The \<open>data\<close> object that \<open>matter(raw)\<close> returns, with the three keys the library reads.
  A key that the metadata block does not have is \<open>None\<close>. The values of \<open>title\<close> and
  \<open>description\<close> are strings, as the interfaces \<open>PostData\<close> and \<open>DirectoryEntry\<close> declare
  them; the value of \<open>date\<close> is a \<open>Date\<close> object (an unquoted YAML date, given by its time
  value) or a string.
\<close>

datatype dateValue = DateObject int | DateString string

record frontmatter =
  title :: "string option"
  description :: "string option"
  date :: "dateValue option"

text \<open>
  A file on disk: \<open>raw\<close> is the string that \<open>fs.readFileSync(path, "utf-8")\<close> returns, given
  by the bytes of its UTF-8 encoding, so that its length is
  \<open>Buffer.byteLength(raw, "utf-8")\<close> (for a file that is not valid UTF-8 these are the
  bytes of the decoded text, not those on disk); \<open>data\<close> and \<open>content\<close> are the two parts
  that \<open>matter(raw)\<close> returns; \<open>mtime\<close> is the modification time. A file whose metadata
  block \<open>gray-matter\<close> cannot parse is outside the model.
\<close>

record contentFile =
  raw :: string
  data :: frontmatter
  content :: string
  mtime :: int

text \<open>
  A directory is the list of its children in the order of \<open>fs.readdirSync\<close>, each name
  with the node that \<open>fs.statSync\<close> and \<open>fs.readFileSync\<close> find at
  \<open>path.join(directory, name)\<close>. On disk the names of one directory are distinct, and
  a name is not empty, holds no separator and is neither \<open>.\<close> nor \<open>..\<close> (\<open>wellFormed\<close>).
\<close>

datatype node = File contentFile | Dir "(string \<times> node) list"

definition validName :: "string \<Rightarrow> bool" where
  "validName item = (item \<noteq> [] \<and> CHR ''/'' \<notin> set item \<and> item \<noteq> ''.'' \<and> item \<noteq> ''..'')"

fun wellFormed :: "node \<Rightarrow> bool"
  and wellFormedItems :: "(string \<times> node) list \<Rightarrow> bool" where
  "wellFormed (File f) = True"
| "wellFormed (Dir items) =
     (distinct (map fst items) \<and> list_all validName (map fst items) \<and> wellFormedItems items)"
| "wellFormedItems [] = True"
| "wellFormedItems (entry # rest) = (wellFormed (snd entry) \<and> wellFormedItems rest)"

datatype error = ENOENT | ENOTDIR | EISDIR | RangeError

text \<open>The node at a path below the content directory, if there is one.\<close>

fun resolve :: "node \<Rightarrow> string list \<Rightarrow> node option" where
  "resolve n [] = Some n"
| "resolve (File f) (segment # segments) = None"
| "resolve (Dir items) (segment # segments) =
     (case map_of items segment of
        None \<Rightarrow> None
      | Some child \<Rightarrow> resolve child segments)"

definition existsSync :: "node \<Rightarrow> string list \<Rightarrow> bool" where
  "existsSync contentDir p = (resolve contentDir p \<noteq> None)"

definition statSync :: "node \<Rightarrow> string list \<Rightarrow> error + node" where
  "statSync contentDir p = (case resolve contentDir p of None \<Rightarrow> Inl ENOENT | Some n \<Rightarrow> Inr n)"

text \<open>\<open>stat.isDirectory()\<close>.\<close>

fun isDir :: "node \<Rightarrow> bool" where
  "isDir (Dir items) = True"
| "isDir (File f) = False"

definition readdirSync :: "node \<Rightarrow> string list \<Rightarrow> error + (string \<times> node) list" where
  "readdirSync contentDir p =
     (case resolve contentDir p of
        None \<Rightarrow> Inl ENOENT
      | Some (File f) \<Rightarrow> Inl ENOTDIR
      | Some (Dir items) \<Rightarrow> Inr items)"

definition readFileSync :: "node \<Rightarrow> string list \<Rightarrow> error + contentFile" where
  "readFileSync contentDir p =
     (case resolve contentDir p of
        None \<Rightarrow> Inl ENOENT
      | Some (Dir items) \<Rightarrow> Inl EISDIR
      | Some (File f) \<Rightarrow> Inr f)"

section \<open>The content library (lib/content.ts)\<close>

text \<open>
  JavaScript's \<open>value || fallback\<close> on a string that may be missing, and the truth value
  of \<open>data.date\<close>: a missing key and the empty string are falsy, a \<open>Date\<close> object is truthy.
\<close>

definition orElse :: "string option \<Rightarrow> string \<Rightarrow> string" where
  "orElse v fallback = (case v of None \<Rightarrow> fallback | Some s \<Rightarrow> if s = [] then fallback else s)"

fun truthy :: "dateValue option \<Rightarrow> bool" where
  "truthy None = False"
| "truthy (Some (DateObject t)) = True"
| "truthy (Some (DateString s)) = (s \<noteq> [])"

text \<open>
  \<open>new Date(data.date)\<close>: the time value of a \<open>Date\<close> object, or what \<open>Date.parse\<close> makes of
  a string; \<open>new Date(undefined)\<close> is an invalid date. \<open>Date.parse\<close> depends on the
  implementation and is the parameter \<open>parse\<close>.
\<close>

fun newDate :: "(string \<Rightarrow> int option) \<Rightarrow> dateValue option \<Rightarrow> int option" where
  "newDate parse None = None"
| "newDate parse (Some (DateObject t)) = Some t"
| "newDate parse (Some (DateString s)) = parse s"

text \<open>\<open>date.toISOString().split("T")[0]\<close>, which throws a RangeError on an invalid date.\<close>

definition isoDay :: "int option \<Rightarrow> error + string" where
  "isoDay d = (case d of None \<Rightarrow> Inl RangeError | Some t \<Rightarrow> Inr (toISODate t))"

text \<open>
  The loop of \<open>getDirectoryDate\<close>; \<open>latestDate\<close> is the variable of that name, and
  \<open>d > latestDate\<close> is false for an invalid date.
\<close>

fun getDirectoryDateLoop ::
  "(string \<Rightarrow> int option) \<Rightarrow> (string \<times> node) list \<Rightarrow> int \<Rightarrow> int" where
  "getDirectoryDateLoop parse [] latestDate = latestDate"
| "getDirectoryDateLoop parse ((item, stat) # items) latestDate =
     (case stat of
        Dir sub \<Rightarrow> getDirectoryDateLoop parse items latestDate
      | File f \<Rightarrow>
          if hasPostExtension item then
            (case (if truthy (date (data f)) then newDate parse (date (data f))
                   else Some (mtime f)) of
               None \<Rightarrow> getDirectoryDateLoop parse items latestDate
             | Some d \<Rightarrow>
                 getDirectoryDateLoop parse items (if d > latestDate then d else latestDate))
          else getDirectoryDateLoop parse items latestDate)"

text \<open>\<open>now\<close> is the time value of \<open>new Date()\<close>.\<close>

definition getDirectoryDate ::
  "(string \<Rightarrow> int option) \<Rightarrow> int \<Rightarrow> node \<Rightarrow> error + string" where
  "getDirectoryDate parse now dir =
     (case readdirSync dir [] of
        Inl e \<Rightarrow> Inl e
      | Inr items \<Rightarrow>
          (let latestDate = getDirectoryDateLoop parse items 0
           in if latestDate = 0 then Inr (toISODate now) else Inr (toISODate latestDate)))"

definition getDirectoryDescription :: "node \<Rightarrow> error + string" where
  "getDirectoryDescription dir =
     (if existsSync dir [''index.mdx''] then
        (case readFileSync dir [''index.mdx''] of
           Inl e \<Rightarrow> Inl e
         | Inr f \<Rightarrow> Inr (orElse (description (data f)) []))
      else Inr [])"

text \<open>
  The body of the loop of \<open>readDirectory\<close> for one child: the entries it pushes (one or
  none), or the error it throws.
\<close>

definition readDirectoryItem ::
  "(string \<Rightarrow> int option) \<Rightarrow> int \<Rightarrow> string list \<Rightarrow> string \<Rightarrow> node \<Rightarrow>
   error + DirectoryEntry list" where
  "readDirectoryItem parse now contentPath item stat =
     (case stat of
        Dir sub \<Rightarrow>
          (case getDirectoryDate parse now stat of
             Inl e \<Rightarrow> Inl e
           | Inr dirDate \<Rightarrow>
               (case getDirectoryDescription stat of
                  Inl e \<Rightarrow> Inl e
                | Inr dirDescription \<Rightarrow>
                    Inr [\<lparr>name = item @ ''/'', isDirectory = True, extension = [],
                          DirectoryEntry.date = dirDate, size' = 0,
                          DirectoryEntry.description = dirDescription,
                          href = ''/'' @ joinSegments (contentPath @ [item])\<rparr>]))
      | File f \<Rightarrow>
          if hasPostExtension item then
            (case (if truthy (date (data f)) then isoDay (newDate parse (date (data f)))
                   else isoDay (Some (mtime f))) of
               Inl e \<Rightarrow> Inl e
             | Inr fileDate \<Rightarrow>
                 Inr [\<lparr>name = item, isDirectory = False, extension = extname item,
                       DirectoryEntry.date = fileDate, size' = length (raw f),
                       DirectoryEntry.description = orElse (description (data f)) [],
                       href = ''/'' @ joinSegments (contentPath @ [stripPostExtension item])\<rparr>])
          else Inr [])"

fun readDirectoryLoop ::
  "(string \<Rightarrow> int option) \<Rightarrow> int \<Rightarrow> string list \<Rightarrow> (string \<times> node) list \<Rightarrow>
   error + DirectoryEntry list" where
  "readDirectoryLoop parse now contentPath [] = Inr []"
| "readDirectoryLoop parse now contentPath ((item, stat) # items) =
     (case readDirectoryItem parse now contentPath item stat of
        Inl e \<Rightarrow> Inl e
      | Inr pushed \<Rightarrow>
          (case readDirectoryLoop parse now contentPath items of
             Inl e \<Rightarrow> Inl e
           | Inr entries \<Rightarrow> Inr (pushed @ entries)))"

definition readDirectory ::
  "(string \<Rightarrow> int option) \<Rightarrow> int \<Rightarrow> node \<Rightarrow> string list \<Rightarrow> error + DirectoryEntry list" where
  "readDirectory parse now contentDir contentPath =
     (if \<not> existsSync contentDir contentPath then Inr []
      else case statSync contentDir contentPath of
             Inl e \<Rightarrow> Inl e
           | Inr stat \<Rightarrow>
               if \<not> isDir stat then Inr []
               else (case readdirSync contentDir contentPath of
                       Inl e \<Rightarrow> Inl e
                     | Inr items \<Rightarrow> readDirectoryLoop parse now contentPath items))"

definition readPost ::
  "(string \<Rightarrow> int option) \<Rightarrow> node \<Rightarrow> string list \<Rightarrow> error + PostData option" where
  "readPost parse contentDir contentPath =
     (let mdxPath = appendToPath contentPath ''.mdx'';
          mdPath = appendToPath contentPath ''.md'';
          filePath = (if existsSync contentDir mdxPath then Some mdxPath
                      else if existsSync contentDir mdPath then Some mdPath
                      else None)
      in case filePath of
           None \<Rightarrow> Inr None
         | Some p \<Rightarrow>
             (case readFileSync contentDir p of
                Inl e \<Rightarrow> Inl e
              | Inr f \<Rightarrow>
                  (case (if truthy (date (data f)) then isoDay (newDate parse (date (data f)))
                         else Inr []) of
                     Inl e \<Rightarrow> Inl e
                   | Inr postDate \<Rightarrow>
                       Inr (Some \<lparr>PostData.title = orElse (title (data f)) (basename contentPath),
                                  PostData.description = orElse (description (data f)) [],
                                  PostData.date = postDate,
                                  PostData.content = content f,
                                  slug = joinSlash contentPath\<rparr>))))"


text \<open>
  \<open>walk\<close> of \<open>getAllPaths\<close>, on the children that \<open>fs.readdirSync\<close> lists for \<open>dir\<close>; the
  result is the list of the paths pushed, in the order of the pushes.
\<close>

fun walk :: "(string \<times> node) list \<Rightarrow> string list \<Rightarrow> string list list" where
  "walk [] segments = []"
| "walk ((item, Dir sub) # items) segments =
     (segments @ [item]) # walk sub (segments @ [item]) @ walk items segments"
| "walk ((item, File f) # items) segments =
     (if hasPostExtension item then [segments @ [stripPostExtension item]] else []) @
     walk items segments"

definition getAllPaths :: "node \<Rightarrow> error + string list list" where
  "getAllPaths contentDir =
     (case readdirSync contentDir [] of
        Inl e \<Rightarrow> Inl e
      | Inr items \<Rightarrow> Inr (walk items []))"

section \<open>The listing component (components/DirectoryListing.tsx)\<close>

datatype SortColumn = Name | Date | Size | Description

datatype SortOrder = Asc | Desc

text \<open>
  The comparator that the component passes to \<open>sort\<close>. \<open>String.prototype.localeCompare\<close>
  depends on the locale and is the parameter \<open>localeCompare\<close>.
\<close>

definition compareEntries ::
  "(string \<Rightarrow> string \<Rightarrow> int) \<Rightarrow> SortColumn \<Rightarrow> SortOrder \<Rightarrow>
   DirectoryEntry \<Rightarrow> DirectoryEntry \<Rightarrow> int" where
  "compareEntries localeCompare sortColumn sortOrder a b =
     (if isDirectory a \<and> \<not> isDirectory b then - 1
      else if \<not> isDirectory a \<and> isDirectory b then 1
      else let cmp = (case sortColumn of
                        Name \<Rightarrow> localeCompare (name a) (name b)
                      | Date \<Rightarrow> localeCompare (DirectoryEntry.date a) (DirectoryEntry.date b)
                      | Size \<Rightarrow> int (size' a) - int (size' b)
                      | Description \<Rightarrow>
                          localeCompare (DirectoryEntry.description a)
                            (DirectoryEntry.description b))
           in if sortOrder = Asc then cmp else - cmp)"

text \<open>The later version of the component has no size column.\<close>

datatype SortColumnNoSize = NameColumn | DateColumn | DescriptionColumn

definition compareEntriesNoSize ::
  "(string \<Rightarrow> string \<Rightarrow> int) \<Rightarrow> SortColumnNoSize \<Rightarrow> SortOrder \<Rightarrow>
   DirectoryEntry \<Rightarrow> DirectoryEntry \<Rightarrow> int" where
  "compareEntriesNoSize localeCompare sortColumn sortOrder a b =
     (if isDirectory a \<and> \<not> isDirectory b then - 1
      else if \<not> isDirectory a \<and> isDirectory b then 1
      else let cmp = (case sortColumn of
                        NameColumn \<Rightarrow> localeCompare (name a) (name b)
                      | DateColumn \<Rightarrow>
                          localeCompare (DirectoryEntry.date a) (DirectoryEntry.date b)
                      | DescriptionColumn \<Rightarrow>
                          localeCompare (DirectoryEntry.description a)
                            (DirectoryEntry.description b))
           in if sortOrder = Asc then cmp else - cmp)"

text \<open>
  \<open>Array.prototype.sort\<close> with a comparator. ECMAScript requires the sort to be stable;
  it is modelled by insertion from the right, which puts an element before the first
  element of the sorted rest that the comparator does not rank before it.
\<close>

fun insertBy :: "('a \<Rightarrow> 'a \<Rightarrow> int) \<Rightarrow> 'a \<Rightarrow> 'a list \<Rightarrow> 'a list" where
  "insertBy comparefn x [] = [x]"
| "insertBy comparefn x (y # ys) =
     (if comparefn x y \<le> 0 then x # y # ys else y # insertBy comparefn x ys)"

definition arraySort :: "('a \<Rightarrow> 'a \<Rightarrow> int) \<Rightarrow> 'a list \<Rightarrow> 'a list" where
  "arraySort comparefn xs = foldr (insertBy comparefn) xs []"

text \<open>\<open>const sorted = [...entries].sort(...)\<close>, in the two versions of the component.\<close>

definition sortEntries ::
  "(string \<Rightarrow> string \<Rightarrow> int) \<Rightarrow> DirectoryEntry list \<Rightarrow> SortColumn \<Rightarrow> SortOrder \<Rightarrow>
   DirectoryEntry list" where
  "sortEntries localeCompare entries sortColumn sortOrder =
     arraySort (compareEntries localeCompare sortColumn sortOrder) entries"

definition sortEntriesNoSize ::
  "(string \<Rightarrow> string \<Rightarrow> int) \<Rightarrow> DirectoryEntry list \<Rightarrow> SortColumnNoSize \<Rightarrow> SortOrder \<Rightarrow>
   DirectoryEntry list" where
  "sortEntriesNoSize localeCompare entries sortColumn sortOrder =
     arraySort (compareEntriesNoSize localeCompare sortColumn sortOrder) entries"

text \<open>
  A consistent comparator in the sense of ECMAScript: the comparator gives zero on equal
  arguments, its sign is reversed when the arguments are exchanged, and each of the
  three outcomes is transitive. \<open>localeCompare\<close> is one in every locale.
\<close>

definition consistentComparator :: "('a \<Rightarrow> 'a \<Rightarrow> int) \<Rightarrow> bool" where
  "consistentComparator comparefn =
     ((\<forall>a. comparefn a a = 0) \<and>
      (\<forall>a b. comparefn a b = 0 \<longrightarrow> comparefn b a = 0) \<and>
      (\<forall>a b. comparefn a b < 0 \<longleftrightarrow> 0 < comparefn b a) \<and>
      (\<forall>a b c. comparefn a b = 0 \<and> comparefn b c = 0 \<longrightarrow> comparefn a c = 0) \<and>
      (\<forall>a b c. comparefn a b < 0 \<and> comparefn b c < 0 \<longrightarrow> comparefn a c < 0) \<and>
      (\<forall>a b c. 0 < comparefn a b \<and> 0 < comparefn b c \<longrightarrow> 0 < comparefn a c))"

text \<open>The comparison of strings by their code units, a \<open>localeCompare\<close> for the examples.\<close>

definition codeUnitCompare :: "string \<Rightarrow> string \<Rightarrow> int" where
  "codeUnitCompare a b = (if a < b then - 1 else if b < a then 1 else 0)"

section \<open>The properties in the words of the specification\<close>

text \<open>
  The description of the index post \<open>index.mdx\<close> of a directory, given by its children;
  empty when the directory has no such file or the file has no description.
\<close>

definition indexDescription :: "(string \<times> node) list \<Rightarrow> string" where
  "indexDescription sub =
     (case map_of sub ''index.mdx'' of
        Some (File f) \<Rightarrow> (case description (data f) of None \<Rightarrow> [] | Some d \<Rightarrow> d)
      | _ \<Rightarrow> [])"

text \<open>
  The date that a post file contributes: its frontmatter date when it has one, its
  modification time otherwise; \<open>None\<close> when the frontmatter date is not a valid date. The
  direct post files of a directory contribute \<open>directPostDates\<close>.
\<close>

definition postDate :: "(string \<Rightarrow> int option) \<Rightarrow> contentFile \<Rightarrow> int option" where
  "postDate parse f =
     (if truthy (date (data f)) then newDate parse (date (data f)) else Some (mtime f))"

fun directPostDates :: "(string \<Rightarrow> int option) \<Rightarrow> (string \<times> node) list \<Rightarrow> int list" where
  "directPostDates parse [] = []"
| "directPostDates parse ((item, Dir sub) # items) = directPostDates parse items"
| "directPostDates parse ((item, File f) # items) =
     (if hasPostExtension item
      then (case postDate parse f of None \<Rightarrow> [] | Some d \<Rightarrow> [d]) @ directPostDates parse items
      else directPostDates parse items)"

text \<open>
  What \<open>readPost\<close> makes of the file it has selected: the title of the metadata block or
  the final path segment, the description or the empty string, the calendar day of the
  date or the empty string; a date that is not valid makes \<open>toISOString\<close> throw.
\<close>

definition postDataOf ::
  "(string \<Rightarrow> int option) \<Rightarrow> string list \<Rightarrow> contentFile \<Rightarrow> error + PostData option" where
  "postDataOf parse contentPath f =
     (if truthy (date (data f)) then
        (case newDate parse (date (data f)) of
           None \<Rightarrow> Inl RangeError
         | Some t \<Rightarrow>
             Inr (Some \<lparr>PostData.title = orElse (title (data f)) (basename contentPath),
                        PostData.description = orElse (description (data f)) [],
                        PostData.date = toISODate t,
                        PostData.content = content f,
                        slug = joinSlash contentPath\<rparr>))
      else Inr (Some \<lparr>PostData.title = orElse (title (data f)) (basename contentPath),
                      PostData.description = orElse (description (data f)) [],
                      PostData.date = [],
                      PostData.content = content f,
                      slug = joinSlash contentPath\<rparr>))"

text \<open>
  Every node below a directory with its path of names, parents before children and
  children in listing order (pre-order). A node is routable when it is a directory or a
  post file; its route is its path, with the post extension stripped from the name of a
  file.
\<close>

fun descendants :: "(string \<times> node) list \<Rightarrow> string list \<Rightarrow> (string list \<times> node) list" where
  "descendants [] segments = []"
| "descendants ((item, Dir sub) # items) segments =
     (segments @ [item], Dir sub) # descendants sub (segments @ [item]) @
     descendants items segments"
| "descendants ((item, File f) # items) segments =
     (segments @ [item], File f) # descendants items segments"

definition routable :: "string list \<times> node \<Rightarrow> bool" where
  "routable pn = (isDir (snd pn) \<or> hasPostExtension (last (fst pn)))"

definition route :: "string list \<times> node \<Rightarrow> string list" where
  "route pn =
     (if isDir (snd pn) then fst pn
      else butlast (fst pn) @ [stripPostExtension (last (fst pn))])"

text \<open>
  The names under which the children of a directory are routed, and the trees in which
  no directory routes two children under one name.
\<close>

fun routeNames :: "(string \<times> node) list \<Rightarrow> string list" where
  "routeNames [] = []"
| "routeNames ((item, Dir sub) # items) = item # routeNames items"
| "routeNames ((item, File f) # items) =
     (if hasPostExtension item then [stripPostExtension item] else []) @ routeNames items"

fun uniqueRoutes :: "(string \<times> node) list \<Rightarrow> bool" where
  "uniqueRoutes [] = True"
| "uniqueRoutes ((item, Dir sub) # items) =
     (item \<notin> set (routeNames items) \<and> uniqueRoutes sub \<and> uniqueRoutes items)"
| "uniqueRoutes ((item, File f) # items) =
     ((hasPostExtension item \<longrightarrow> stripPostExtension item \<notin> set (routeNames items)) \<and>
      uniqueRoutes items)"

section \<open>Example data\<close>

text \<open>
  The sample content of the repository: two posts and the directory \<open>archives\<close> with an
  index post and an old post. \<open>parseNothing\<close> is a \<open>Date.parse\<close> that accepts no string.
\<close>

definition parseNothing :: "string \<Rightarrow> int option" where
  "parseNothing s = None"

definition helloFile :: contentFile where
  "helloFile =
     \<lparr>raw = ''---\<newline>title: Hello World\<newline>description: First post\<newline>date: 2026-02-23\<newline>---\<newline>\<newline># Hello World\<newline>'',
      data = \<lparr>title = Some ''Hello World'', description = Some ''First post'',
              date = Some (DateObject 1771804800000)\<rparr>,
      content = ''\<newline># Hello World\<newline>'',
      mtime = 1771891200000\<rparr>"

definition deploymentFile :: contentFile where
  "deploymentFile =
     \<lparr>raw = ''---\<newline>title: Deployment Strategies\<newline>description: CI/CD notes\<newline>date: 2026-02-20\<newline>---\<newline>\<newline># Deployment Strategies\<newline>'',
      data = \<lparr>title = Some ''Deployment Strategies'', description = Some ''CI/CD notes'',
              date = Some (DateObject 1771545600000)\<rparr>,
      content = ''\<newline># Deployment Strategies\<newline>'',
      mtime = 1771891200000\<rparr>"

definition archivesIndexFile :: contentFile where
  "archivesIndexFile =
     \<lparr>raw = ''---\<newline>title: Archives\<newline>description: Old posts\<newline>---\<newline>'',
      data = \<lparr>title = Some ''Archives'', description = Some ''Old posts'', date = None\<rparr>,
      content = [],
      mtime = 1749945600000\<rparr>"

definition oldPostFile :: contentFile where
  "oldPostFile =
     \<lparr>raw = ''---\<newline>title: An Old Post\<newline>description: From the archives\<newline>date: 2025-06-15\<newline>---\<newline>\<newline># An Old Post\<newline>'',
      data = \<lparr>title = Some ''An Old Post'', description = Some ''From the archives'',
              date = Some (DateObject 1749945600000)\<rparr>,
      content = ''\<newline># An Old Post\<newline>'',
      mtime = 1771891200000\<rparr>"

definition archivesItems :: "(string \<times> node) list" where
  "archivesItems = [(''index.mdx'', File archivesIndexFile), (''old-post.mdx'', File oldPostFile)]"

definition sampleItems :: "(string \<times> node) list" where
  "sampleItems =
     [(''archives'', Dir archivesItems),
      (''deployment-strategies.mdx'', File deploymentFile),
      (''hello-world.mdx'', File helloFile)]"

definition sampleContent :: node where
  "sampleContent = Dir sampleItems"

text \<open>
  More files: a post dated before 1970, a post with an empty title, a post whose date is
  not a date, a post with an empty metadata block, and a directory with a \<open>.md\<close> and a
  \<open>.mdx\<close> file of one name.
\<close>

definition apolloFile :: contentFile where
  "apolloFile =
     \<lparr>raw = ''---\<newline>title: Apollo 11\<newline>description: Moon landing\<newline>date: 1969-07-20\<newline>---\<newline>'',
      data = \<lparr>title = Some ''Apollo 11'', description = Some ''Moon landing'',
              date = Some (DateObject (- 14256000000))\<rparr>,
      content = [],
      mtime = 1771891200000\<rparr>"

definition untitledFile :: contentFile where
  "untitledFile =
     \<lparr>raw = ''---\<newline>title: !!str\<newline>description: Draft\<newline>date: 2026-02-23\<newline>---\<newline>'',
      data = \<lparr>title = Some [], description = Some ''Draft'',
              date = Some (DateObject 1771804800000)\<rparr>,
      content = [],
      mtime = 1771891200000\<rparr>"

definition soonFile :: contentFile where
  "soonFile =
     \<lparr>raw = ''---\<newline>title: Plans\<newline>description: To do\<newline>date: soon\<newline>---\<newline>'',
      data = \<lparr>title = Some ''Plans'', description = Some ''To do'',
              date = Some (DateString ''soon'')\<rparr>,
      content = [],
      mtime = 1771891200000\<rparr>"

definition bareFile :: contentFile where
  "bareFile =
     \<lparr>raw = ''---\<newline>---\<newline>Just text\<newline>'',
      data = \<lparr>title = None, description = None, date = None\<rparr>,
      content = ''Just text\<newline>'',
      mtime = 1771891200000\<rparr>"

definition shadowedContent :: node where
  "shadowedContent =
     Dir [(''bare.md'', File bareFile),
          (''notes.md'', File oldPostFile), (''notes.mdx'', File helloFile),
          (''plans.md'', File soonFile), (''untitled.md'', File untitledFile)]"



text \<open>A directory with the two posts of the sample content.\<close>

definition postsItems :: "(string \<times> node) list" where
  "postsItems =
     [(''deployment-strategies.mdx'', File deploymentFile),
      (''hello-world.mdx'', File helloFile)]"

text \<open>Entries of listings: a directory and three posts.\<close>

definition archivesEntry :: DirectoryEntry where
  "archivesEntry =
     \<lparr>name = ''archives/'', isDirectory = True, extension = [],
      DirectoryEntry.date = ''2025-06-15'', size' = 0,
      DirectoryEntry.description = ''Old posts'', href = ''/archives''\<rparr>"

definition helloEntry :: DirectoryEntry where
  "helloEntry =
     \<lparr>name = ''hello-world.mdx'', isDirectory = False, extension = ''.mdx'',
      DirectoryEntry.date = ''2026-02-23'', size' = 83,
      DirectoryEntry.description = ''First post'', href = ''/hello-world''\<rparr>"

definition helloAgainEntry :: DirectoryEntry where
  "helloAgainEntry =
     \<lparr>name = ''hello-again.mdx'', isDirectory = False, extension = ''.mdx'',
      DirectoryEntry.date = ''2026-03-01'', size' = 83,
      DirectoryEntry.description = ''Second post'', href = ''/hello-again''\<rparr>"

definition deploymentEntry :: DirectoryEntry where
  "deploymentEntry =
     \<lparr>name = ''deployment-strategies.mdx'', isDirectory = False, extension = ''.mdx'',
      DirectoryEntry.date = ''2026-02-20'', size' = 104,
      DirectoryEntry.description = ''CI/CD notes'', href = ''/deployment-strategies''\<rparr>"

chapter \<open>Verification\<close>

section \<open>Decimal digits and rounding\<close>

lemma numberToString_digit: "n < 10 \<Longrightarrow> numberToString n = [digitChar n]"
  by (simp add: numberToString.simps)

lemma numberToString_step:
  "10 \<le> n \<Longrightarrow> numberToString n = numberToString (n div 10) @ [digitChar (n mod 10)]"
  by (subst numberToString.simps) simp

lemma numberToString_nonempty: "numberToString n \<noteq> []"
  by (subst numberToString.simps) simp

lemmas numberToString_eval = numberToString_digit numberToString_step digitChar_def

lemma round_half_up_near:
  fixes y :: real
  assumes "0 \<le> y"
  shows "\<bar>real (nat \<lfloor>y + 1 / 2\<rfloor>) - y\<bar> \<le> 1 / 2"
proof -
  have "0 \<le> \<lfloor>y + 1 / 2\<rfloor>" using assms by simp
  then have "real (nat \<lfloor>y + 1 / 2\<rfloor>) = of_int \<lfloor>y + 1 / 2\<rfloor>" by simp
  moreover have "of_int \<lfloor>y + 1 / 2\<rfloor> \<le> y + 1 / 2" by (rule of_int_floor_le)
  moreover have "y + 1 / 2 < of_int \<lfloor>y + 1 / 2\<rfloor> + 1" by linarith
  ultimately show ?thesis by linarith
qed

lemma toFixed_0: "toFixed x 0 = numberToString (nat \<lfloor>x + 1 / 2\<rfloor>)"
  by (simp add: toFixed_def)

lemma toFixed_1:
  assumes "1 \<le> x"
  shows "toFixed x 1 =
           numberToString (nat \<lfloor>x * 10 + 1 / 2\<rfloor> div 10) @ ''.'' @
           [digitChar (nat \<lfloor>x * 10 + 1 / 2\<rfloor> mod 10)]"
proof -
  define n where "n = nat \<lfloor>x * 10 + 1 / 2\<rfloor>"
  have "(10::int) \<le> \<lfloor>x * 10 + 1 / 2\<rfloor>" using assms by (simp add: le_floor_iff)
  then have n10: "10 \<le> n" unfolding n_def by linarith
  have step: "numberToString n = numberToString (n div 10) @ [digitChar (n mod 10)]"
    using n10 by (rule numberToString_step)
  have pos: "0 < length (numberToString (n div 10))"
    using numberToString_nonempty [of "n div 10"] by simp
  have "toFixed x 1 = take (length (numberToString n) - 1) (numberToString n) @ ''.'' @
          drop (length (numberToString n) - 1) (numberToString n)"
    using pos by (simp add: toFixed_def n_def [symmetric] Let_def step)
  also have "\<dots> = numberToString (n div 10) @ ''.'' @ [digitChar (n mod 10)]"
    by (simp add: step)
  finally show ?thesis by (simp add: n_def)
qed

section \<open>formatSize\<close>

lemma formatSize_bytes: "bytes < 1024 \<Longrightarrow> formatSize bytes = numberToString bytes"
  by (simp add: formatSize_def numberToString_digit digitChar_def)

lemma formatSize_K:
  assumes "1024 \<le> bytes" and "bytes < 1024 * 1024"
  shows "\<exists>whole tenth. tenth < 10 \<and>
           formatSize bytes = numberToString whole @ ''.'' @ [digitChar tenth] @ ''K'' \<and>
           \<bar>(real whole + real tenth / 10) - real bytes / 1024\<bar> \<le> 1 / 20"
proof -
  define x where "x = real bytes / 1024"
  define n where "n = nat \<lfloor>x * 10 + 1 / 2\<rfloor>"
  have x1: "1 \<le> x" using assms(1) by (simp add: x_def)
  have fmt: "formatSize bytes = toFixed x 1 @ ''K''"
    using assms by (simp add: formatSize_def x_def)
  have "toFixed x 1 = numberToString (n div 10) @ ''.'' @ [digitChar (n mod 10)]"
    using toFixed_1 [OF x1] by (simp add: n_def)
  then have shape: "formatSize bytes =
      numberToString (n div 10) @ ''.'' @ [digitChar (n mod 10)] @ ''K''"
    using fmt by simp
  have "\<bar>real n - x * 10\<bar> \<le> 1 / 2"
    unfolding n_def using x1 by (intro round_half_up_near) simp
  moreover have "real n = 10 * real (n div 10) + real (n mod 10)"
    by (metis mult_div_mod_eq of_nat_add of_nat_mult of_nat_numeral)
  ultimately have near: "\<bar>(real (n div 10) + real (n mod 10) / 10) - x\<bar> \<le> 1 / 20"
    by linarith
  show ?thesis
    using shape near by (intro exI [of _ "n div 10"] exI [of _ "n mod 10"]) (simp add: x_def)
qed

lemma formatSize_M:
  assumes "1024 * 1024 \<le> bytes" and "bytes < 1024 * 1024 * 1024"
  shows "\<exists>mib. formatSize bytes = numberToString mib @ ''M'' \<and>
           \<bar>real mib - real bytes / (1024 * 1024)\<bar> \<le> 1 / 2"
proof -
  define x where "x = real bytes / (1024 * 1024)"
  have "formatSize bytes = numberToString (nat \<lfloor>x + 1 / 2\<rfloor>) @ ''M''"
    using assms by (simp add: formatSize_def x_def toFixed_0)
  moreover have "\<bar>real (nat \<lfloor>x + 1 / 2\<rfloor>) - x\<bar> \<le> 1 / 2"
    by (rule round_half_up_near) (simp add: x_def)
  ultimately show ?thesis unfolding x_def by blast
qed

lemma formatSize_G:
  assumes "1024 * 1024 * 1024 \<le> bytes"
  shows "\<exists>gib. formatSize bytes = numberToString gib @ ''G'' \<and>
           \<bar>real gib - real bytes / (1024 * 1024 * 1024)\<bar> \<le> 1 / 2"
proof -
  define x where "x = real bytes / (1024 * 1024 * 1024)"
  have "formatSize bytes = numberToString (nat \<lfloor>x + 1 / 2\<rfloor>) @ ''G''"
    using assms by (simp add: formatSize_def x_def toFixed_0)
  moreover have "\<bar>real (nat \<lfloor>x + 1 / 2\<rfloor>) - x\<bar> \<le> 1 / 2"
    by (rule round_half_up_near) (simp add: x_def)
  ultimately show ?thesis unfolding x_def by blast
qed

lemma formatSize_500: "formatSize 500 = ''500''"
  by (simp add: formatSize_def numberToString_eval)

lemma formatSize_2048: "formatSize 2048 = ''2.0K''"
  by (simp add: formatSize_def toFixed_def numberToString_eval Let_def)

lemma formatSize_5242880: "formatSize 5242880 = ''5M''"
  by (simp add: formatSize_def toFixed_def numberToString_eval Let_def)

lemma formatSize_3221225472: "formatSize 3221225472 = ''3G''"
  by (simp add: formatSize_def toFixed_def numberToString_eval Let_def)

text \<open>
  C5: \<open>formatSize\<close> maps 0 to \<open>"0"\<close>; a byte count below 1024 to its decimal digits; a
  count below 1 MiB to kibibytes with one decimal and the suffix \<open>K\<close>; a count below 1 GiB
  to whole mebibytes with the suffix \<open>M\<close>; a larger count to whole gibibytes with the
  suffix \<open>G\<close>. The kibibytes are the nearest tenth, the mebibytes and gibibytes the
  nearest whole number. 500 gives \<open>"500"\<close>, 2048 gives \<open>"2.0K"\<close>, 5242880 gives
  \<open>"5M"\<close> and 3221225472 gives \<open>"3G"\<close>.
\<close>

theorem formatSize_ranges:
  "formatSize 0 = ''0'' \<and>
   (bytes < 1024 \<longrightarrow> formatSize bytes = numberToString bytes) \<and>
   (1024 \<le> bytes \<and> bytes < 1024 * 1024 \<longrightarrow>
      (\<exists>whole tenth. tenth < 10 \<and>
         formatSize bytes = numberToString whole @ ''.'' @ [digitChar tenth] @ ''K'' \<and>
         \<bar>(real whole + real tenth / 10) - real bytes / 1024\<bar> \<le> 1 / 20)) \<and>
   (1024 * 1024 \<le> bytes \<and> bytes < 1024 * 1024 * 1024 \<longrightarrow>
      (\<exists>mib. formatSize bytes = numberToString mib @ ''M'' \<and>
         \<bar>real mib - real bytes / (1024 * 1024)\<bar> \<le> 1 / 2)) \<and>
   (1024 * 1024 * 1024 \<le> bytes \<and> bytes \<le> maxSafeInteger \<longrightarrow>
      (\<exists>gib. formatSize bytes = numberToString gib @ ''G'' \<and>
         \<bar>real gib - real bytes / (1024 * 1024 * 1024)\<bar> \<le> 1 / 2)) \<and>
   formatSize 500 = ''500'' \<and> formatSize 2048 = ''2.0K'' \<and>
   formatSize 5242880 = ''5M'' \<and> formatSize 3221225472 = ''3G''"
proof -
  have zero: "formatSize 0 = ''0''" by (simp add: formatSize_def)
  show ?thesis
    using zero formatSize_bytes [of bytes] formatSize_K [of bytes] formatSize_M [of bytes]
      formatSize_G [of bytes] formatSize_500 formatSize_2048 formatSize_5242880
      formatSize_3221225472
    by blast
qed

theorem formatSize_ranges_witness:
  "formatSize 999 = ''999'' \<and>
   (\<exists>whole tenth. tenth < 10 \<and>
      formatSize 1536 = numberToString whole @ ''.'' @ [digitChar tenth] @ ''K'' \<and>
      \<bar>(real whole + real tenth / 10) - 1536 / 1024\<bar> \<le> 1 / 20) \<and>
   (\<exists>mib. formatSize 1572864 = numberToString mib @ ''M'' \<and>
      \<bar>real mib - 1572864 / (1024 * 1024)\<bar> \<le> 1 / 2) \<and>
   (\<exists>gib. formatSize 4294967296 = numberToString gib @ ''G'' \<and>
      \<bar>real gib - 4294967296 / (1024 * 1024 * 1024)\<bar> \<le> 1 / 2)"
proof -
  have a: "formatSize 999 = ''999''"
    using formatSize_ranges [of 999] by (simp add: numberToString_eval)
  have b: "\<exists>whole tenth. tenth < 10 \<and>
      formatSize 1536 = numberToString whole @ ''.'' @ [digitChar tenth] @ ''K'' \<and>
      \<bar>(real whole + real tenth / 10) - 1536 / 1024\<bar> \<le> 1 / 20"
    using formatSize_ranges [of 1536] by simp
  have c: "\<exists>mib. formatSize 1572864 = numberToString mib @ ''M'' \<and>
      \<bar>real mib - 1572864 / (1024 * 1024)\<bar> \<le> 1 / 2"
    using formatSize_ranges [of 1572864] by simp
  have d: "\<exists>gib. formatSize 4294967296 = numberToString gib @ ''G'' \<and>
      \<bar>real gib - 4294967296 / (1024 * 1024 * 1024)\<bar> \<le> 1 / 2"
    using formatSize_ranges [of 4294967296] by (simp add: maxSafeInteger_def)
  show ?thesis using a b c d by blast
qed

section \<open>Sorting\<close>

lemma set_insertBy: "set (insertBy c x ys) = insert x (set ys)"
  by (induction ys) auto

lemma mset_insertBy: "mset (insertBy c x ys) = add_mset x (mset ys)"
  by (induction ys) auto

lemma mset_arraySort: "mset (arraySort c xs) = mset xs"
  by (induction xs) (auto simp: arraySort_def mset_insertBy)

lemma insertBy_keeps_groups:
  assumes first: "\<And>a b. D a \<Longrightarrow> \<not> D b \<Longrightarrow> c a b \<le> 0"
    and second: "\<And>a b. \<not> D a \<Longrightarrow> D b \<Longrightarrow> 0 < c a b"
    and sorted: "sorted_wrt (\<lambda>a b. D b \<longrightarrow> D a) ys"
  shows "sorted_wrt (\<lambda>a b. D b \<longrightarrow> D a) (insertBy c x ys)"
  using sorted
proof (induction ys)
  case Nil
  show ?case by simp
next
  case (Cons y ys)
  show ?case
  proof (cases "c x y \<le> 0")
    case True
    have "D z \<longrightarrow> D x" if "z \<in> set (y # ys)" for z
    proof (cases "D x")
      case True
      then show ?thesis by simp
    next
      case False
      then have "\<not> D y" using second [of x y] True by auto
      then show ?thesis using Cons.prems that by auto
    qed
    then show ?thesis using True Cons.prems by auto
  next
    case False
    then have "D x \<longrightarrow> D y" using first [of x y] by auto
    then show ?thesis using False Cons by (auto simp: set_insertBy)
  qed
qed

lemma arraySort_groups:
  assumes "\<And>a b. D a \<Longrightarrow> \<not> D b \<Longrightarrow> c a b \<le> 0"
    and "\<And>a b. \<not> D a \<Longrightarrow> D b \<Longrightarrow> 0 < c a b"
  shows "sorted_wrt (\<lambda>a b. D b \<longrightarrow> D a) (arraySort c xs)"
proof (induction xs)
  case Nil
  show ?case by (simp add: arraySort_def)
next
  case (Cons x xs)
  then show ?case
    using insertBy_keeps_groups [of D c "arraySort c xs" x] assms
    by (simp add: arraySort_def)
qed

lemma groups_nth:
  assumes "sorted_wrt (\<lambda>a b. D b \<longrightarrow> D a) ys"
    and "i < length ys" and "j < length ys" and "D (ys ! i)" and "\<not> D (ys ! j)"
  shows "i < j"
proof (rule ccontr)
  assume "\<not> i < j"
  then have "j < i \<or> j = i" by auto
  then show False
  proof
    assume "j < i"
    then have "D (ys ! i) \<longrightarrow> D (ys ! j)"
      using assms(1,2) by (simp add: sorted_wrt_iff_nth_less)
    then show False using assms(4,5) by simp
  next
    assume "j = i"
    then show False using assms(4,5) by simp
  qed
qed

text \<open>
  C1: whatever the entries, the sort column and the order, the sorted list holds the
  same entries and every directory in it comes before every entry that is not a
  directory; this holds for both versions of the component.
\<close>

theorem directories_before_files:
  "mset (sortEntries localeCompare entries sortColumn sortOrder) = mset entries \<and>
   mset (sortEntriesNoSize localeCompare entries sortColumn' sortOrder) = mset entries \<and>
   (\<forall>i j. i < length entries \<and> j < length entries \<and>
      isDirectory (sortEntries localeCompare entries sortColumn sortOrder ! i) \<and>
      \<not> isDirectory (sortEntries localeCompare entries sortColumn sortOrder ! j) \<longrightarrow> i < j) \<and>
   (\<forall>i j. i < length entries \<and> j < length entries \<and>
      isDirectory (sortEntriesNoSize localeCompare entries sortColumn' sortOrder ! i) \<and>
      \<not> isDirectory (sortEntriesNoSize localeCompare entries sortColumn' sortOrder ! j) \<longrightarrow>
      i < j)"
proof -
  let ?c = "compareEntries localeCompare sortColumn sortOrder"
  let ?c' = "compareEntriesNoSize localeCompare sortColumn' sortOrder"
  have m: "mset (arraySort ?c entries) = mset entries"
    and m': "mset (arraySort ?c' entries) = mset entries"
    by (rule mset_arraySort)+
  have len: "length (arraySort ?c entries) = length entries"
    and len': "length (arraySort ?c' entries) = length entries"
    using m m' by (metis size_mset)+
  have g: "sorted_wrt (\<lambda>a b. isDirectory b \<longrightarrow> isDirectory a) (arraySort ?c entries)"
    by (rule arraySort_groups) (simp_all add: compareEntries_def)
  have g': "sorted_wrt (\<lambda>a b. isDirectory b \<longrightarrow> isDirectory a) (arraySort ?c' entries)"
    by (rule arraySort_groups) (simp_all add: compareEntriesNoSize_def)
  have n: "i < j"
    if "i < length entries \<and> j < length entries \<and> isDirectory (arraySort ?c entries ! i) \<and>
        \<not> isDirectory (arraySort ?c entries ! j)" for i j
    using that groups_nth [OF g, of i j] len by simp
  have n': "i < j"
    if "i < length entries \<and> j < length entries \<and> isDirectory (arraySort ?c' entries ! i) \<and>
        \<not> isDirectory (arraySort ?c' entries ! j)" for i j
    using that groups_nth [OF g', of i j] len' by simp
  show ?thesis
    unfolding sortEntries_def sortEntriesNoSize_def
    using m m' n n' by blast
qed

section \<open>Stability\<close>

lemma consistent_codeUnitCompare: "consistentComparator codeUnitCompare"
  unfolding consistentComparator_def codeUnitCompare_def by auto

lemma filter_insertBy:
  assumes "\<And>a b. c k a = 0 \<Longrightarrow> c k b = 0 \<Longrightarrow> c a b = 0"
  shows "filter (\<lambda>e. c k e = 0) (insertBy c x ys) =
           (if c k x = 0 then x # filter (\<lambda>e. c k e = 0) ys else filter (\<lambda>e. c k e = 0) ys)"
proof (induction ys)
  case Nil
  show ?case by simp
next
  case (Cons y ys)
  show ?case
  proof (cases "c x y \<le> 0")
    case True
    then show ?thesis by simp
  next
    case False
    then have "\<not> (c k x = 0 \<and> c k y = 0)" using assms [of x y] by auto
    then show ?thesis using False Cons.IH by auto
  qed
qed

lemma arraySort_stable:
  assumes "\<And>a b. c k a = 0 \<Longrightarrow> c k b = 0 \<Longrightarrow> c a b = 0"
  shows "filter (\<lambda>e. c k e = 0) (arraySort c xs) = filter (\<lambda>e. c k e = 0) xs"
proof (induction xs)
  case Nil
  show ?case by (simp add: arraySort_def)
next
  case (Cons x xs)
  have "filter (\<lambda>e. c k e = 0) (arraySort c (x # xs)) =
          filter (\<lambda>e. c k e = 0) (insertBy c x (arraySort c xs))"
    by (simp add: arraySort_def)
  also have "\<dots> = (if c k x = 0 then x # filter (\<lambda>e. c k e = 0) (arraySort c xs)
                   else filter (\<lambda>e. c k e = 0) (arraySort c xs))"
    using assms by (rule filter_insertBy)
  finally show ?case using Cons.IH by simp
qed

lemma consistent_ties:
  assumes "consistentComparator f" and "f k a = 0" and "f k b = 0"
  shows "f a b = 0"
proof -
  have "f a k = 0" using assms(1,2) unfolding consistentComparator_def by blast
  then show ?thesis using assms(1,3) unfolding consistentComparator_def by blast
qed

lemma compareEntries_ties:
  assumes "consistentComparator localeCompare"
    and "compareEntries localeCompare sortColumn sortOrder k a = 0"
    and "compareEntries localeCompare sortColumn sortOrder k b = 0"
  shows "compareEntries localeCompare sortColumn sortOrder a b = 0"
proof -
  note ties = consistent_ties [OF assms(1)]
  have da: "isDirectory a = isDirectory k" and db: "isDirectory b = isDirectory k"
    using assms(2,3) by (auto simp: compareEntries_def split: if_splits)
  show ?thesis
    using assms(2,3) da db
    by (cases sortColumn; cases sortOrder)
       (auto simp: compareEntries_def Let_def split: if_splits intro: ties)
qed

lemma compareEntriesNoSize_ties:
  assumes "consistentComparator localeCompare"
    and "compareEntriesNoSize localeCompare sortColumn sortOrder k a = 0"
    and "compareEntriesNoSize localeCompare sortColumn sortOrder k b = 0"
  shows "compareEntriesNoSize localeCompare sortColumn sortOrder a b = 0"
proof -
  note ties = consistent_ties [OF assms(1)]
  have da: "isDirectory a = isDirectory k" and db: "isDirectory b = isDirectory k"
    using assms(2,3) by (auto simp: compareEntriesNoSize_def split: if_splits)
  show ?thesis
    using assms(2,3) da db
    by (cases sortColumn; cases sortOrder)
       (auto simp: compareEntriesNoSize_def Let_def split: if_splits intro: ties)
qed

theorem directories_before_files_witness:
  "(0::nat) < length [helloEntry, archivesEntry] \<and> (1::nat) < length [helloEntry, archivesEntry] \<and>
   isDirectory (sortEntries codeUnitCompare [helloEntry, archivesEntry] Size Desc ! 0) \<and>
   \<not> isDirectory (sortEntries codeUnitCompare [helloEntry, archivesEntry] Size Desc ! 1) \<and>
   isDirectory (sortEntriesNoSize codeUnitCompare [helloEntry, archivesEntry] DateColumn Desc ! 0) \<and>
   \<not> isDirectory
        (sortEntriesNoSize codeUnitCompare [helloEntry, archivesEntry] DateColumn Desc ! 1) \<and>
   (0::nat) < 1"
  using directories_before_files
    [of codeUnitCompare "[helloEntry, archivesEntry]" Size Desc DateColumn]
  by (simp add: sortEntries_def sortEntriesNoSize_def arraySort_def compareEntries_def
      compareEntriesNoSize_def helloEntry_def archivesEntry_def)

section \<open>The comparator is consistent and the result is sorted\<close>

lemma sorted_insertBy:
  assumes "consistentComparator c" and "sorted_wrt (\<lambda>a b. c a b \<le> 0) ys"
  shows "sorted_wrt (\<lambda>a b. c a b \<le> 0) (insertBy c x ys)"
  using assms(2)
proof (induction ys)
  case Nil
  show ?case by simp
next
  case (Cons y ys)
  have sym: "\<And>a b. c a b = 0 \<Longrightarrow> c b a = 0"
    and anti: "\<And>a b. c a b < 0 \<longleftrightarrow> 0 < c b a"
    and t0: "\<And>a b d. c a b = 0 \<Longrightarrow> c b d = 0 \<Longrightarrow> c a d = 0"
    and tl: "\<And>a b d. c a b < 0 \<Longrightarrow> c b d < 0 \<Longrightarrow> c a d < 0"
    and tg: "\<And>a b d. 0 < c a b \<Longrightarrow> 0 < c b d \<Longrightarrow> 0 < c a d"
    using assms(1) unfolding consistentComparator_def by blast+
  have le_trans: "c a d \<le> 0" if ab: "c a b \<le> 0" and bd: "c b d \<le> 0" for a b d
  proof (rule ccontr)
    assume "\<not> c a d \<le> 0"
    then have p: "0 < c a d" by simp
    then have da: "c d a < 0" using anti by simp
    consider "c a b < 0" | "c a b = 0" using ab by linarith
    then show False
    proof cases
      case 1
      then have "c d b < 0" using tl [OF da] by simp
      then have "0 < c b d" using anti by simp
      then show False using bd by simp
    next
      case 2
      consider "c b d < 0" | "c b d = 0" using bd by linarith
      then show False
      proof cases
        case 1
        then have "c b a < 0" using tl [OF _ da] by simp
        then have "0 < c a b" using anti by simp
        then show False using 2 by simp
      next
        case 2
        then have "c a d = 0" using t0 \<open>c a b = 0\<close> by blast
        then show False using p by simp
      qed
    qed
  qed
  show ?case
  proof (cases "c x y \<le> 0")
    case True
    have "c x z \<le> 0" if "z \<in> set ys" for z
      using le_trans [OF True] Cons.prems that by auto
    then show ?thesis using True Cons.prems by auto
  next
    case False
    then have "c y x \<le> 0" using anti [of y x] by simp
    then show ?thesis using False Cons by (auto simp: set_insertBy)
  qed
qed

lemma sorted_arraySort:
  assumes "consistentComparator c"
  shows "sorted_wrt (\<lambda>a b. c a b \<le> 0) (arraySort c xs)"
proof (induction xs)
  case Nil
  show ?case by (simp add: arraySort_def)
next
  case (Cons x xs)
  then show ?case using sorted_insertBy [OF assms] by (simp add: arraySort_def)
qed


lemma consistent_on_key:
  assumes "consistentComparator c"
  shows "consistentComparator (\<lambda>a b. c (f a) (f b))"
  using assms unfolding consistentComparator_def by blast

lemma consistent_reversed:
  assumes "consistentComparator c"
  shows "consistentComparator (\<lambda>a b. - c a b)"
proof -
  have refl: "\<And>a. c a a = 0" and sym: "\<And>a b. c a b = 0 \<Longrightarrow> c b a = 0"
    and anti: "\<And>a b. c a b < 0 \<longleftrightarrow> 0 < c b a"
    and t0: "\<And>a b d. c a b = 0 \<Longrightarrow> c b d = 0 \<Longrightarrow> c a d = 0"
    and tl: "\<And>a b d. c a b < 0 \<Longrightarrow> c b d < 0 \<Longrightarrow> c a d < 0"
    and tg: "\<And>a b d. 0 < c a b \<Longrightarrow> 0 < c b d \<Longrightarrow> 0 < c a d"
    using assms unfolding consistentComparator_def by blast+
  show ?thesis
    unfolding consistentComparator_def
  proof (intro conjI allI impI)
    fix a b d
    show "- c a a = 0" by (simp add: refl)
    show "- c a b = 0 \<Longrightarrow> - c b a = 0" using sym by simp
    show "- c a b < 0 \<longleftrightarrow> 0 < - c b a" using anti [of b a] by simp
    show "- c a b = 0 \<and> - c b d = 0 \<Longrightarrow> - c a d = 0" using t0 [of a b d] by simp
    show "- c a b < 0 \<and> - c b d < 0 \<Longrightarrow> - c a d < 0" using tg [of a b d] by simp
    show "0 < - c a b \<and> 0 < - c b d \<Longrightarrow> 0 < - c a d" using tl [of a b d] by simp
  qed
qed

lemma consistent_size: "consistentComparator (\<lambda>a b. int (size' a) - int (size' b))"
  unfolding consistentComparator_def by auto

lemma consistent_directories_first:
  assumes "consistentComparator c"
  shows "consistentComparator
           (\<lambda>a b. if D a \<and> \<not> D b then - 1 else if \<not> D a \<and> D b then 1 else c a b)"
proof -
  have refl: "\<And>a. c a a = 0" and sym: "\<And>a b. c a b = 0 \<Longrightarrow> c b a = 0"
    and anti: "\<And>a b. c a b < 0 \<longleftrightarrow> 0 < c b a"
    and t0: "\<And>a b d. c a b = 0 \<Longrightarrow> c b d = 0 \<Longrightarrow> c a d = 0"
    and tl: "\<And>a b d. c a b < 0 \<Longrightarrow> c b d < 0 \<Longrightarrow> c a d < 0"
    and tg: "\<And>a b d. 0 < c a b \<Longrightarrow> 0 < c b d \<Longrightarrow> 0 < c a d"
    using assms unfolding consistentComparator_def by blast+
  let ?k = "\<lambda>a b. if D a \<and> \<not> D b then - 1 else if \<not> D a \<and> D b then 1 else c a b"
  show ?thesis
    unfolding consistentComparator_def
  proof (intro conjI allI impI)
    fix a b d
    show "?k a a = 0" by (simp add: refl)
    show "?k a b = 0 \<Longrightarrow> ?k b a = 0" using sym [of a b] by (auto split: if_splits)
    show "?k a b < 0 \<longleftrightarrow> 0 < ?k b a" using anti [of a b] by (auto split: if_splits)
    show "?k a b = 0 \<and> ?k b d = 0 \<Longrightarrow> ?k a d = 0"
      using t0 [of a b d] by (auto split: if_splits)
    show "?k a b < 0 \<and> ?k b d < 0 \<Longrightarrow> ?k a d < 0"
      using tl [of a b d] by (auto split: if_splits)
    show "0 < ?k a b \<and> 0 < ?k b d \<Longrightarrow> 0 < ?k a d"
      using tg [of a b d] by (auto split: if_splits)
  qed
qed

lemma compareEntries_consistent:
  assumes "consistentComparator localeCompare"
  shows "consistentComparator (compareEntries localeCompare sortColumn sortOrder)"
proof -
  let ?column = "\<lambda>a b. case sortColumn of
      Name \<Rightarrow> localeCompare (name a) (name b)
    | Date \<Rightarrow> localeCompare (DirectoryEntry.date a) (DirectoryEntry.date b)
    | Size \<Rightarrow> int (size' a) - int (size' b)
    | Description \<Rightarrow>
        localeCompare (DirectoryEntry.description a) (DirectoryEntry.description b)"
  have column: "consistentComparator ?column"
    using consistent_on_key [OF assms, of name]
      consistent_on_key [OF assms, of DirectoryEntry.date]
      consistent_on_key [OF assms, of DirectoryEntry.description] consistent_size
    by (cases sortColumn) simp_all
  let ?ordered = "\<lambda>a b. if sortOrder = Asc then ?column a b else - ?column a b"
  have ordered: "consistentComparator ?ordered"
    using column consistent_reversed [OF column] by (cases sortOrder) simp_all
  have "compareEntries localeCompare sortColumn sortOrder =
      (\<lambda>a b. if isDirectory a \<and> \<not> isDirectory b then - 1
             else if \<not> isDirectory a \<and> isDirectory b then 1 else ?ordered a b)"
    by (intro ext) (simp add: compareEntries_def Let_def)
  then show ?thesis
    using consistent_directories_first [OF ordered, of isDirectory] by simp
qed

lemma sortEntries_sorted:
  assumes "consistentComparator localeCompare"
  shows "sorted_wrt (\<lambda>a b. compareEntries localeCompare sortColumn sortOrder a b \<le> 0)
           (sortEntries localeCompare entries sortColumn sortOrder)"
  unfolding sortEntries_def
  using compareEntries_consistent [OF assms] by (rule sorted_arraySort)


lemma compareEntriesNoSize_consistent:
  assumes "consistentComparator localeCompare"
  shows "consistentComparator (compareEntriesNoSize localeCompare sortColumn sortOrder)"
proof -
  let ?column = "\<lambda>a b. case sortColumn of
      NameColumn \<Rightarrow> localeCompare (name a) (name b)
    | DateColumn \<Rightarrow> localeCompare (DirectoryEntry.date a) (DirectoryEntry.date b)
    | DescriptionColumn \<Rightarrow>
        localeCompare (DirectoryEntry.description a) (DirectoryEntry.description b)"
  have column: "consistentComparator ?column"
    using consistent_on_key [OF assms, of name]
      consistent_on_key [OF assms, of DirectoryEntry.date]
      consistent_on_key [OF assms, of DirectoryEntry.description]
    by (cases sortColumn) simp_all
  let ?ordered = "\<lambda>a b. if sortOrder = Asc then ?column a b else - ?column a b"
  have ordered: "consistentComparator ?ordered"
    using column consistent_reversed [OF column] by (cases sortOrder) simp_all
  have "compareEntriesNoSize localeCompare sortColumn sortOrder =
      (\<lambda>a b. if isDirectory a \<and> \<not> isDirectory b then - 1
             else if \<not> isDirectory a \<and> isDirectory b then 1 else ?ordered a b)"
    by (intro ext) (simp add: compareEntriesNoSize_def Let_def)
  then show ?thesis
    using consistent_directories_first [OF ordered, of isDirectory] by simp
qed

text \<open>
  C4: \<open>sortEntries\<close> is stable. With \<open>localeCompare\<close> a consistent comparator, the
  comparator of the component is a consistent comparator, so that the order of the sorted
  list is the one ECMAScript defines; and for any entry \<open>k\<close>, the entries that compare
  equal to \<open>k\<close> under the selected comparator are in the sorted list in the order they
  have in the input list. This holds for both versions of the component.
\<close>

theorem sortEntries_stable:
  assumes "consistentComparator localeCompare"
  shows "consistentComparator (compareEntries localeCompare sortColumn sortOrder) \<and>
         filter (\<lambda>e. compareEntries localeCompare sortColumn sortOrder k e = 0)
           (sortEntries localeCompare entries sortColumn sortOrder) =
         filter (\<lambda>e. compareEntries localeCompare sortColumn sortOrder k e = 0) entries \<and>
         consistentComparator (compareEntriesNoSize localeCompare sortColumn' sortOrder) \<and>
         filter (\<lambda>e. compareEntriesNoSize localeCompare sortColumn' sortOrder k e = 0)
           (sortEntriesNoSize localeCompare entries sortColumn' sortOrder) =
         filter (\<lambda>e. compareEntriesNoSize localeCompare sortColumn' sortOrder k e = 0) entries"
proof (intro conjI)
  show "consistentComparator (compareEntries localeCompare sortColumn sortOrder)"
    using assms by (rule compareEntries_consistent)
  show "consistentComparator (compareEntriesNoSize localeCompare sortColumn' sortOrder)"
    using assms by (rule compareEntriesNoSize_consistent)
  show "filter (\<lambda>e. compareEntries localeCompare sortColumn sortOrder k e = 0)
           (sortEntries localeCompare entries sortColumn sortOrder) =
         filter (\<lambda>e. compareEntries localeCompare sortColumn sortOrder k e = 0) entries"
    unfolding sortEntries_def
    by (rule arraySort_stable) (rule compareEntries_ties [OF assms])
  show "filter (\<lambda>e. compareEntriesNoSize localeCompare sortColumn' sortOrder k e = 0)
           (sortEntriesNoSize localeCompare entries sortColumn' sortOrder) =
         filter (\<lambda>e. compareEntriesNoSize localeCompare sortColumn' sortOrder k e = 0) entries"
    unfolding sortEntriesNoSize_def
    by (rule arraySort_stable) (rule compareEntriesNoSize_ties [OF assms])
qed

theorem sortEntries_stable_witness:
  "consistentComparator codeUnitCompare \<and>
   filter (\<lambda>e. compareEntries codeUnitCompare Size Asc helloEntry e = 0)
     (sortEntries codeUnitCompare
        [deploymentEntry, helloEntry, archivesEntry, helloAgainEntry] Size Asc) =
   [helloEntry, helloAgainEntry]"
proof -
  have "filter (\<lambda>e. compareEntries codeUnitCompare Size Asc helloEntry e = 0)
     (sortEntries codeUnitCompare
        [deploymentEntry, helloEntry, archivesEntry, helloAgainEntry] Size Asc) =
    filter (\<lambda>e. compareEntries codeUnitCompare Size Asc helloEntry e = 0)
      [deploymentEntry, helloEntry, archivesEntry, helloAgainEntry]"
    using sortEntries_stable [OF consistent_codeUnitCompare] by blast
  then show ?thesis
    by (simp add: consistent_codeUnitCompare compareEntries_def helloEntry_def
        archivesEntry_def deploymentEntry_def helloAgainEntry_def)
qed

section \<open>The content tree\<close>

lemma resolve_append:
  "resolve n (p @ q) = (case resolve n p of None \<Rightarrow> None | Some m \<Rightarrow> resolve m q)"
  by (induction n p rule: resolve.induct) (auto split: option.splits)

lemma resolve_child:
  "resolve n p = Some (Dir items) \<Longrightarrow> resolve n (p @ [item]) = map_of items item"
  by (simp add: resolve_append split: option.splits)

lemma wellFormedItems_member:
  "wellFormedItems items \<Longrightarrow> (item, child) \<in> set items \<Longrightarrow> wellFormed child"
  by (induction items) auto

lemma wellFormed_resolve: "wellFormed n \<Longrightarrow> resolve n p = Some m \<Longrightarrow> wellFormed m"
proof (induction n p rule: resolve.induct)
  case (1 n)
  then show ?case by simp
next
  case (2 f segment segments)
  then show ?case by simp
next
  case (3 items segment segments)
  from "3.prems"(2) obtain child where c: "map_of items segment = Some child"
    and r: "resolve child segments = Some m"
    by (auto split: option.splits)
  have "(segment, child) \<in> set items" using c by (rule map_of_SomeD)
  then have "wellFormed child" using "3.prems"(1) wellFormedItems_member by auto
  then show ?case using "3.IH" c r by simp
qed

section \<open>extname on the names of post files\<close>

lemma extnameLoop_before_dot:
  assumes "CHR ''.'' \<notin> set s" and "CHR ''/'' \<notin> set s" and "startDot st = - 1"
  shows "extnameLoop (s @ rest) st =
           extnameLoop rest
             (if s = [] \<or> endIndex st \<noteq> - 1 then st
              else st\<lparr>endIndex := int (length (s @ rest)), matchedSlash := False\<rparr>)"
  using assms
proof (induction s arbitrary: st)
  case Nil
  show ?case by simp
next
  case (Cons a s)
  then show ?case by (cases "s = []") (auto simp: Let_def algebra_simps)
qed

lemma extnameLoop_after_dot:
  assumes "CHR ''/'' \<notin> set s" and "startDot st \<noteq> - 1" and "endIndex st \<noteq> - 1"
  shows "startDot (extnameLoop s st) = startDot st \<and>
         endIndex (extnameLoop s st) = endIndex st \<and>
         startPart (extnameLoop s st) = startPart st \<and>
         (s = [] \<longrightarrow> preDotState (extnameLoop s st) = preDotState st) \<and>
         (s \<noteq> [] \<or> preDotState st \<noteq> 0 \<longrightarrow> preDotState (extnameLoop s st) \<noteq> 0)"
  using assms
proof (induction s arbitrary: st)
  case Nil
  show ?case by simp
next
  case (Cons a s)
  then show ?case by (auto simp: Let_def)
qed

lemma extname_of_suffix:
  assumes "CHR ''/'' \<notin> set pre" and "CHR ''.'' \<notin> set ext" and "CHR ''/'' \<notin> set ext"
    and "ext \<noteq> []"
  shows "extname (pre @ ''.'' @ ext) = (if pre = [] then [] else ''.'' @ ext)"
proof -
  let ?init = "\<lparr>startDot = - 1, startPart = 0, endIndex = - 1, matchedSlash = True,
                 preDotState = 0\<rparr>"
  let ?n = "int (length pre)"
  let ?e = "int (length (pre @ ''.'' @ ext))"
  let ?st = "\<lparr>startDot = ?n, startPart = 0, endIndex = ?e, matchedSlash = False,
               preDotState = 0\<rparr>"
  have "extnameLoop (rev (pre @ ''.'' @ ext)) ?init =
          extnameLoop (rev ext @ (CHR ''.'' # rev pre)) ?init"
    by simp
  also have "\<dots> = extnameLoop (CHR ''.'' # rev pre)
      (?init\<lparr>endIndex := int (length (rev ext @ (CHR ''.'' # rev pre))), matchedSlash := False\<rparr>)"
    using assms by (subst extnameLoop_before_dot) auto
  also have "\<dots> = extnameLoop (rev pre) ?st"
    by (simp add: Let_def algebra_simps)
  finally have loop: "extnameLoop (rev (pre @ ''.'' @ ext)) ?init = extnameLoop (rev pre) ?st" .
  have inv: "startDot (extnameLoop (rev pre) ?st) = ?n \<and>
             endIndex (extnameLoop (rev pre) ?st) = ?e \<and>
             startPart (extnameLoop (rev pre) ?st) = 0 \<and>
             (rev pre = [] \<longrightarrow> preDotState (extnameLoop (rev pre) ?st) = 0) \<and>
             (rev pre \<noteq> [] \<or> (0::int) \<noteq> 0 \<longrightarrow> preDotState (extnameLoop (rev pre) ?st) \<noteq> 0)"
    using extnameLoop_after_dot [of "rev pre" ?st] assms(1) by simp
  show ?thesis
  proof (cases "pre = []")
    case True
    then show ?thesis using inv loop by (simp add: extname_def Let_def)
  next
    case False
    have "?n \<noteq> ?e - 1" using assms(4) by (cases ext) auto
    then show ?thesis
      using False inv unfolding extname_def Let_def loop by simp
  qed
qed

lemma endsWith_append: "endsWith s suffix \<longleftrightarrow> (\<exists>pre. s = pre @ suffix)"
proof
  assume "endsWith s suffix"
  then have "s = take (length s - length suffix) s @ suffix"
    unfolding endsWith_def by (metis append_take_drop_id)
  then show "\<exists>pre. s = pre @ suffix" ..
next
  assume "\<exists>pre. s = pre @ suffix"
  then show "endsWith s suffix" by (auto simp: endsWith_def)
qed

lemma extname_post:
  assumes "CHR ''/'' \<notin> set item" and "hasPostExtension item"
  shows "extname item =
           (if item = ''.mdx'' \<or> item = ''.md'' then []
            else if endsWith item ''.mdx'' then ''.mdx'' else ''.md'')"
proof (cases "endsWith item ''.mdx''")
  case True
  then obtain pre where p: "item = pre @ ''.'' @ ''mdx''" by (auto simp: endsWith_append)
  have "extname (pre @ ''.'' @ ''mdx'') = (if pre = [] then [] else ''.'' @ ''mdx'')"
    using assms(1) p by (intro extname_of_suffix) auto
  then show ?thesis using True p by auto
next
  case False
  then have "endsWith item ''.md''" using assms(2) by (simp add: hasPostExtension_def)
  then obtain pre where p: "item = pre @ ''.'' @ ''md''" by (auto simp: endsWith_append)
  have "extname (pre @ ''.'' @ ''md'') = (if pre = [] then [] else ''.'' @ ''md'')"
    using assms(1) p by (intro extname_of_suffix) auto
  then show ?thesis using False p by auto
qed

section \<open>readDirectory\<close>

lemma getDirectoryDescription_Dir:
  "getDirectoryDescription (Dir sub) =
     (case map_of sub ''index.mdx'' of
        None \<Rightarrow> Inr []
      | Some (File f) \<Rightarrow> Inr (orElse (description (data f)) [])
      | Some (Dir d) \<Rightarrow> Inl EISDIR)"
  by (simp add: getDirectoryDescription_def existsSync_def readFileSync_def
      split: option.splits node.splits)

lemma getDirectoryDescription_index:
  "getDirectoryDescription (Dir sub) = Inr d \<Longrightarrow> d = indexDescription sub"
  by (auto simp: getDirectoryDescription_Dir indexDescription_def orElse_def
      split: option.splits node.splits if_splits)

text \<open>The date string that \<open>getDirectoryDate\<close> returns for a directory with the given children.\<close>

lemma getDirectoryDate_Dir:
  "getDirectoryDate parse now (Dir sub) =
     Inr (if getDirectoryDateLoop parse sub 0 = 0 then toISODate now
          else toISODate (getDirectoryDateLoop parse sub 0))"
  by (simp add: getDirectoryDate_def readdirSync_def Let_def)

lemma readDirectoryItem_Dir:
  assumes "readDirectoryItem parse now contentPath item (Dir sub) = Inr pushed"
  shows "pushed =
           [\<lparr>name = item @ ''/'', isDirectory = True, extension = [],
             DirectoryEntry.date =
               (if getDirectoryDateLoop parse sub 0 = 0 then toISODate now
                else toISODate (getDirectoryDateLoop parse sub 0)),
             size' = 0, DirectoryEntry.description = indexDescription sub,
             href = ''/'' @ joinSegments (contentPath @ [item])\<rparr>]"
proof -
  obtain d where d: "getDirectoryDescription (Dir sub) = Inr d"
    using assms by (auto simp: readDirectoryItem_def getDirectoryDate_Dir split: sum.splits)
  then have "d = indexDescription sub" by (rule getDirectoryDescription_index)
  then show ?thesis
    using assms d by (auto simp: readDirectoryItem_def getDirectoryDate_Dir)
qed

lemma readDirectoryItem_File:
  assumes "readDirectoryItem parse now contentPath item (File f) = Inr pushed"
    and "e \<in> set pushed"
  shows "hasPostExtension item \<and> name e = item \<and> \<not> isDirectory e \<and>
         extension e = extname item"
  using assms
  by (auto simp: readDirectoryItem_def split: if_splits sum.splits)

lemma readDirectoryItem_skip:
  "\<not> hasPostExtension item \<Longrightarrow> readDirectoryItem parse now contentPath item (File f) = Inr []"
  by (simp add: readDirectoryItem_def)

lemma readDirectoryLoop_member:
  assumes "readDirectoryLoop parse now contentPath items = Inr entries" and "e \<in> set entries"
  shows "\<exists>item stat pushed. (item, stat) \<in> set items \<and>
           readDirectoryItem parse now contentPath item stat = Inr pushed \<and> e \<in> set pushed"
  using assms
proof (induction items arbitrary: entries)
  case Nil
  then show ?case by simp
next
  case (Cons a items)
  obtain item stat where a: "a = (item, stat)" by (cases a)
  from Cons.prems(1) obtain pushed rest where
    p: "readDirectoryItem parse now contentPath item stat = Inr pushed" and
    r: "readDirectoryLoop parse now contentPath items = Inr rest" and
    e: "entries = pushed @ rest"
    unfolding a by (auto split: sum.splits)
  show ?case
  proof (cases "e \<in> set pushed")
    case True
    then show ?thesis using p a by auto
  next
    case False
    then have "e \<in> set rest" using Cons.prems(2) e by simp
    then show ?thesis using Cons.IH [OF r] by auto
  qed
qed

lemma readDirectoryLoop_covers:
  assumes "readDirectoryLoop parse now contentPath items = Inr entries"
    and "(item, stat) \<in> set items"
  shows "\<exists>pushed. readDirectoryItem parse now contentPath item stat = Inr pushed \<and>
           set pushed \<subseteq> set entries"
  using assms
proof (induction items arbitrary: entries)
  case Nil
  then show ?case by simp
next
  case (Cons a items)
  obtain item' stat' where a: "a = (item', stat')" by (cases a)
  from Cons.prems(1) obtain pushed rest where
    p: "readDirectoryItem parse now contentPath item' stat' = Inr pushed" and
    r: "readDirectoryLoop parse now contentPath items = Inr rest" and
    e: "entries = pushed @ rest"
    unfolding a by (auto split: sum.splits)
  show ?case
  proof (cases "(item, stat) = a")
    case True
    then show ?thesis using p a e by auto
  next
    case False
    then have "(item, stat) \<in> set items" using Cons.prems(2) by simp
    then show ?thesis using Cons.IH [OF r] e by auto
  qed
qed

lemma readDirectory_Dir:
  "resolve contentDir contentPath = Some (Dir items) \<Longrightarrow>
   readDirectory parse now contentDir contentPath =
     readDirectoryLoop parse now contentPath items"
  by (simp add: readDirectory_def existsSync_def statSync_def readdirSync_def)

text \<open>
  C6: for a path that does not exist in the content tree, or that exists and is not a
  directory, \<open>readDirectory\<close> returns the empty list and no error.
\<close>

theorem readDirectory_no_directory:
  "(\<not> existsSync contentDir contentPath \<or>
    (\<exists>f. resolve contentDir contentPath = Some (File f))) \<longrightarrow>
   readDirectory parse now contentDir contentPath = Inr []"
  by (auto simp: readDirectory_def existsSync_def statSync_def)

theorem readDirectory_no_directory_witness:
  "\<not> existsSync sampleContent [''drafts''] \<and>
   readDirectory parseNothing 1793664000000 sampleContent [''drafts''] = Inr [] \<and>
   resolve sampleContent [''archives'', ''old-post.mdx''] = Some (File oldPostFile) \<and>
   readDirectory parseNothing 1793664000000 sampleContent [''archives'', ''old-post.mdx''] =
     Inr []"
proof -
  have a: "\<not> existsSync sampleContent [''drafts'']"
    by (simp add: existsSync_def sampleContent_def sampleItems_def archivesItems_def)
  have b: "resolve sampleContent [''archives'', ''old-post.mdx''] = Some (File oldPostFile)"
    by (simp add: sampleContent_def sampleItems_def archivesItems_def)
  show ?thesis
    using a b
      readDirectory_no_directory [of sampleContent "[''drafts'']" parseNothing 1793664000000]
      readDirectory_no_directory
        [of sampleContent "[''archives'', ''old-post.mdx'']" parseNothing 1793664000000]
    by blast
qed

section \<open>Evaluation on the example data\<close>

lemma toISODate_2026_02_23: "toISODate 1771804800000 = ''2026-02-23''"
  unfolding toISODate_def civilFromDays_def Let_def msPerDay_def
  by (simp add: yearString_def padStart_def numberToString_eval)

lemma toISODate_2026_02_20: "toISODate 1771545600000 = ''2026-02-20''"
  unfolding toISODate_def civilFromDays_def Let_def msPerDay_def
  by (simp add: yearString_def padStart_def numberToString_eval)

lemma toISODate_2025_06_15: "toISODate 1749945600000 = ''2025-06-15''"
  unfolding toISODate_def civilFromDays_def Let_def msPerDay_def
  by (simp add: yearString_def padStart_def numberToString_eval)

lemma toISODate_2026_11_03: "toISODate 1793664000000 = ''2026-11-03''"
  unfolding toISODate_def civilFromDays_def Let_def msPerDay_def
  by (simp add: yearString_def padStart_def numberToString_eval)

lemma toISODate_1969_07_20: "toISODate (- 14256000000) = ''1969-07-20''"
  unfolding toISODate_def civilFromDays_def Let_def msPerDay_def
  by (simp add: yearString_def padStart_def numberToString_eval)

lemma hasPostExtension_examples:
  "hasPostExtension ''hello-world.mdx''"
  "hasPostExtension ''deployment-strategies.mdx''"
  "hasPostExtension ''index.mdx''"
  "hasPostExtension ''old-post.mdx''"
  "hasPostExtension ''.mdx''"
  "hasPostExtension ''index.md''"
  "hasPostExtension ''landing.md''"
  by (simp_all add: hasPostExtension_def endsWith_def)

lemma stripPostExtension_examples:
  "stripPostExtension ''hello-world.mdx'' = ''hello-world''"
  "stripPostExtension ''deployment-strategies.mdx'' = ''deployment-strategies''"
  "stripPostExtension ''.mdx'' = []"
  by (simp_all add: stripPostExtension_def endsWith_def)

lemma extname_examples:
  "extname ''hello-world.mdx'' = ''.mdx''"
  "extname ''deployment-strategies.mdx'' = ''.mdx''"
  by (simp_all add: extname_post hasPostExtension_examples endsWith_def)

lemma extname_dot_mdx: "extname ''.mdx'' = []"
  by (simp add: extname_def Let_def)

lemma readDirectory_sampleContent:
  "readDirectory parseNothing 1793664000000 sampleContent [] =
     Inr [archivesEntry, deploymentEntry, helloEntry]"
  by (simp add: readDirectory_Dir sampleContent_def sampleItems_def archivesItems_def readDirectoryItem_def getDirectoryDate_Dir
      getDirectoryDescription_Dir hasPostExtension_examples stripPostExtension_examples
      extname_examples helloFile_def deploymentFile_def oldPostFile_def archivesIndexFile_def
      isoDay_def orElse_def joinSegments_def archivesEntry_def deploymentEntry_def
      helloEntry_def toISODate_2026_02_23 toISODate_2026_02_20 toISODate_2025_06_15)

section \<open>The entries of a listing\<close>

lemma readDirectory_member:
  assumes "readDirectory parse now contentDir contentPath = Inr entries" and "e \<in> set entries"
  shows "\<exists>items item stat pushed.
           resolve contentDir contentPath = Some (Dir items) \<and> (item, stat) \<in> set items \<and>
           readDirectoryItem parse now contentPath item stat = Inr pushed \<and> e \<in> set pushed"
proof (cases "resolve contentDir contentPath")
  case None
  then show ?thesis using assms by (simp add: readDirectory_def existsSync_def)
next
  case (Some n)
  show ?thesis
  proof (cases n)
    case (File f)
    then show ?thesis using assms Some by (simp add: readDirectory_def existsSync_def statSync_def)
  next
    case (Dir items)
    then have "readDirectoryLoop parse now contentPath items = Inr entries"
      using assms(1) Some by (simp add: readDirectory_Dir)
    then show ?thesis
      using readDirectoryLoop_member [of parse now contentPath items entries e] assms(2) Some Dir
      by blast
  qed
qed

lemma listed_child:
  assumes "wellFormed contentDir" and "resolve contentDir contentPath = Some (Dir items)"
    and "(item, stat) \<in> set items"
  shows "resolve contentDir (contentPath @ [item]) = Some stat \<and> validName item"
proof -
  have wf: "wellFormed (Dir items)" using assms(1,2) by (rule wellFormed_resolve)
  then have "map_of items item = Some stat" using assms(3) by simp
  moreover have "validName item"
    using wf assms(3) by (auto simp: list_all_iff)
  ultimately show ?thesis using assms(2) by (simp add: resolve_child)
qed

text \<open>
  C7 (amended): every entry that \<open>readDirectory\<close> returns is either a directory entry, with
  an empty extension and the name of a subdirectory followed by a slash, or the entry of a
  file whose name ends in \<open>.mdx\<close> or \<open>.md\<close>, with the extension that \<open>path.extname\<close> gives
  for that name: \<open>.mdx\<close> or \<open>.md\<close>, and the empty string for a file named exactly \<open>.mdx\<close>
  or \<open>.md\<close>. A child that is neither a directory nor such a file has no entry.
\<close>

theorem readDirectory_entry_kinds:
  assumes "wellFormed contentDir"
    and "readDirectory parse now contentDir contentPath = Inr entries"
    and "e \<in> set entries"
  shows "(isDirectory e \<and> extension e = [] \<and>
          (\<exists>item sub. resolve contentDir (contentPath @ [item]) = Some (Dir sub) \<and>
             name e = item @ ''/'')) \<or>
         (\<not> isDirectory e \<and>
          (\<exists>f. resolve contentDir (contentPath @ [name e]) = Some (File f)) \<and>
          hasPostExtension (name e) \<and> extension e = extname (name e) \<and>
          extension e =
            (if name e = ''.mdx'' \<or> name e = ''.md'' then []
             else if endsWith (name e) ''.mdx'' then ''.mdx'' else ''.md''))"
proof -
  obtain items item stat pushed where
    r: "resolve contentDir contentPath = Some (Dir items)" and
    m: "(item, stat) \<in> set items" and
    p: "readDirectoryItem parse now contentPath item stat = Inr pushed" and
    e: "e \<in> set pushed"
    using readDirectory_member [OF assms(2,3)] by blast
  have c: "resolve contentDir (contentPath @ [item]) = Some stat" and v: "validName item"
    using listed_child [OF assms(1) r m] by simp_all
  show ?thesis
  proof (cases stat)
    case (Dir sub)
    then have "isDirectory e \<and> extension e = [] \<and> name e = item @ ''/''"
      using readDirectoryItem_Dir [of parse now contentPath item sub pushed] p e by auto
    then show ?thesis using c Dir by blast
  next
    case (File f)
    then have k: "hasPostExtension item \<and> name e = item \<and> \<not> isDirectory e \<and>
        extension e = extname item"
      using readDirectoryItem_File [of parse now contentPath item f pushed e] p e by simp
    moreover have "CHR ''/'' \<notin> set item" using v by (simp add: validName_def)
    ultimately have "extname item =
        (if item = ''.mdx'' \<or> item = ''.md'' then []
         else if endsWith item ''.mdx'' then ''.mdx'' else ''.md'')"
      by (intro extname_post) simp_all
    then show ?thesis using k c File by auto
  qed
qed

lemma wellFormed_sampleContent: "wellFormed sampleContent"
  by (simp add: sampleContent_def sampleItems_def archivesItems_def validName_def)

theorem readDirectory_entry_kinds_witness:
  "wellFormed sampleContent \<and>
   readDirectory parseNothing 1793664000000 sampleContent [] =
     Inr [archivesEntry, deploymentEntry, helloEntry] \<and>
   helloEntry \<in> set [archivesEntry, deploymentEntry, helloEntry] \<and>
   \<not> isDirectory helloEntry \<and>
   resolve sampleContent ([] @ [name helloEntry]) = Some (File helloFile) \<and>
   hasPostExtension (name helloEntry) \<and> extension helloEntry = extname (name helloEntry) \<and>
   extension helloEntry = ''.mdx''"
proof -
  have mem: "helloEntry \<in> set [archivesEntry, deploymentEntry, helloEntry]" by simp
  have nodir: "\<not> isDirectory helloEntry" by (simp add: helloEntry_def)
  have child: "resolve sampleContent ([] @ [name helloEntry]) = Some (File helloFile)"
    by (simp add: helloEntry_def sampleContent_def sampleItems_def archivesItems_def)
  have post: "hasPostExtension (name helloEntry)"
    by (simp add: helloEntry_def hasPostExtension_examples)
  have ext: "extension helloEntry = ''.mdx''" by (simp add: helloEntry_def)
  have "extension helloEntry = extname (name helloEntry)"
    using readDirectory_entry_kinds
      [OF wellFormed_sampleContent readDirectory_sampleContent mem] nodir
    by blast
  then show ?thesis
    using wellFormed_sampleContent readDirectory_sampleContent mem nodir child post ext
    by blast
qed

text \<open>
  The claim as it was stated fails for a file named \<open>.mdx\<close>: its name ends in a post
  extension, it is listed, and its extension is empty.
\<close>

theorem readDirectory_dot_mdx_counterexample:
  "hasPostExtension ''.mdx'' \<and>
   readDirectory parseNothing 1793664000000 (Dir [(''.mdx'', File helloFile)]) [] =
     Inr [\<lparr>name = ''.mdx'', isDirectory = False, extension = [],
           DirectoryEntry.date = ''2026-02-23'', size' = 83,
           DirectoryEntry.description = ''First post'', href = ''/.''\<rparr>]"
  by (simp add: readDirectory_Dir readDirectoryItem_def hasPostExtension_examples
      stripPostExtension_examples extname_dot_mdx helloFile_def isoDay_def orElse_def
      joinSegments_def toISODate_2026_02_23)

section \<open>The entries of subdirectories\<close>

lemma getDirectoryDateLoop_Max:
  "getDirectoryDateLoop parse items latestDate =
     Max (insert latestDate (set (directPostDates parse items)))"
proof (induction parse items arbitrary: latestDate rule: directPostDates.induct)
  case (1 parse)
  show ?case by simp
next
  case (2 parse item sub items)
  then show ?case by simp
next
  case (3 parse item f items)
  show ?case
  proof (cases "hasPostExtension item")
    case False
    then show ?thesis using "3.IH"(2) by simp
  next
    case True
    show ?thesis
    proof (cases "postDate parse f")
      case None
      then show ?thesis using True "3.IH"(1) by (simp add: postDate_def)
    next
      case (Some d)
      have "getDirectoryDateLoop parse ((item, File f) # items) latestDate =
              getDirectoryDateLoop parse items (max latestDate d)"
        using True Some by (auto simp: postDate_def max_def)
      also have "\<dots> = Max (insert (max latestDate d) (set (directPostDates parse items)))"
        using "3.IH"(1) [OF True] by simp
      also have "\<dots> = Max (insert latestDate (insert d (set (directPostDates parse items))))"
        by (cases "set (directPostDates parse items) = {}") (simp_all add: max.assoc)
      finally show ?thesis using True Some by simp
    qed
  qed
qed

lemma getDirectoryDateLoop_latest:
  assumes "directPostDates parse sub \<noteq> []" and "0 < Max (set (directPostDates parse sub))"
  shows "getDirectoryDateLoop parse sub 0 = Max (set (directPostDates parse sub))"
  using assms by (simp add: getDirectoryDateLoop_Max max_def)

lemma getDirectoryDateLoop_none:
  "directPostDates parse sub = [] \<Longrightarrow> getDirectoryDateLoop parse sub 0 = 0"
  by (simp add: getDirectoryDateLoop_Max)

lemma directory_entry_listed:
  assumes "resolve contentDir contentPath = Some (Dir items)"
    and "readDirectory parse now contentDir contentPath = Inr entries"
    and "(item, Dir sub) \<in> set items"
  shows "\<lparr>name = item @ ''/'', isDirectory = True, extension = [],
           DirectoryEntry.date =
             (if getDirectoryDateLoop parse sub 0 = 0 then toISODate now
              else toISODate (getDirectoryDateLoop parse sub 0)),
           size' = 0, DirectoryEntry.description = indexDescription sub,
           href = ''/'' @ joinSegments (contentPath @ [item])\<rparr> \<in> set entries"
proof -
  have "readDirectoryLoop parse now contentPath items = Inr entries"
    using assms(1,2) by (simp add: readDirectory_Dir)
  then obtain pushed where
    p: "readDirectoryItem parse now contentPath item (Dir sub) = Inr pushed" and
    s: "set pushed \<subseteq> set entries"
    using readDirectoryLoop_covers assms(3) by blast
  show ?thesis using readDirectoryItem_Dir [OF p] s by auto
qed

lemma directory_entry_origin:
  assumes "resolve contentDir contentPath = Some (Dir items)"
    and "readDirectory parse now contentDir contentPath = Inr entries"
    and "e \<in> set entries" and "isDirectory e"
  shows "\<exists>item sub. (item, Dir sub) \<in> set items \<and>
           e = \<lparr>name = item @ ''/'', isDirectory = True, extension = [],
                 DirectoryEntry.date =
                   (if getDirectoryDateLoop parse sub 0 = 0 then toISODate now
                    else toISODate (getDirectoryDateLoop parse sub 0)),
                 size' = 0, DirectoryEntry.description = indexDescription sub,
                 href = ''/'' @ joinSegments (contentPath @ [item])\<rparr>"
proof -
  obtain items' item stat pushed where
    r: "resolve contentDir contentPath = Some (Dir items')" and
    m: "(item, stat) \<in> set items'" and
    p: "readDirectoryItem parse now contentPath item stat = Inr pushed" and
    e: "e \<in> set pushed"
    using readDirectory_member [OF assms(2,3)] by blast
  have same: "items' = items" using r assms(1) by simp
  show ?thesis
  proof (cases stat)
    case (Dir sub)
    then show ?thesis
      using readDirectoryItem_Dir [of parse now contentPath item sub pushed] p e m same by auto
  next
    case (File f)
    then have "\<not> isDirectory e"
      using readDirectoryItem_File [of parse now contentPath item f pushed e] p e by simp
    then show ?thesis using assms(4) by simp
  qed
qed

text \<open>
  C8 (amended): the entry of every subdirectory that \<open>readDirectory\<close> lists has the
  description of the file \<open>index.mdx\<close> of that subdirectory, and the empty string when the
  subdirectory has no file of that name or the file has no description. A file
  \<open>index.md\<close> is not read for the description.
\<close>

theorem directory_entry_description:
  assumes "resolve contentDir contentPath = Some (Dir items)"
    and "readDirectory parse now contentDir contentPath = Inr entries"
  shows "(\<forall>item sub. (item, Dir sub) \<in> set items \<longrightarrow>
            (\<exists>e \<in> set entries. name e = item @ ''/'' \<and> isDirectory e \<and>
               DirectoryEntry.description e = indexDescription sub)) \<and>
         (\<forall>e \<in> set entries. isDirectory e \<longrightarrow>
            (\<exists>item sub. (item, Dir sub) \<in> set items \<and> name e = item @ ''/'' \<and>
               DirectoryEntry.description e = indexDescription sub))"
proof (intro conjI allI impI ballI)
  fix item sub
  assume "(item, Dir sub) \<in> set items"
  from directory_entry_listed [OF assms this]
  show "\<exists>e \<in> set entries. name e = item @ ''/'' \<and> isDirectory e \<and>
          DirectoryEntry.description e = indexDescription sub"
    by (rule rev_bexI) simp
next
  fix e
  assume "e \<in> set entries" and "isDirectory e"
  from directory_entry_origin [OF assms this]
  show "\<exists>item sub. (item, Dir sub) \<in> set items \<and> name e = item @ ''/'' \<and>
          DirectoryEntry.description e = indexDescription sub"
    by auto
qed

text \<open>
  Where \<open>getDirectoryDate\<close> does what its comment says: the entry of a subdirectory has the
  calendar day of the most recent date among the direct post files of the subdirectory
  (the frontmatter date of a file that has a valid one, its modification time when it
  has none) when this most recent date is later than the epoch; for a subdirectory
  with no dated post file it has the current day.
\<close>

lemma directory_entry_date:
  assumes "resolve contentDir contentPath = Some (Dir items)"
    and "readDirectory parse now contentDir contentPath = Inr entries"
  shows "(\<forall>item sub. (item, Dir sub) \<in> set items \<longrightarrow>
            (\<exists>e \<in> set entries. name e = item @ ''/'' \<and> isDirectory e \<and>
               (directPostDates parse sub \<noteq> [] \<and> 0 < Max (set (directPostDates parse sub)) \<longrightarrow>
                  DirectoryEntry.date e = toISODate (Max (set (directPostDates parse sub)))) \<and>
               (directPostDates parse sub = [] \<longrightarrow> DirectoryEntry.date e = toISODate now))) \<and>
         (\<forall>e \<in> set entries. isDirectory e \<longrightarrow>
            (\<exists>item sub. (item, Dir sub) \<in> set items \<and> name e = item @ ''/'' \<and>
               (directPostDates parse sub \<noteq> [] \<and> 0 < Max (set (directPostDates parse sub)) \<longrightarrow>
                  DirectoryEntry.date e = toISODate (Max (set (directPostDates parse sub)))) \<and>
               (directPostDates parse sub = [] \<longrightarrow> DirectoryEntry.date e = toISODate now)))"
proof (intro conjI allI impI ballI)
  fix item sub
  assume "(item, Dir sub) \<in> set items"
  from directory_entry_listed [OF assms this]
  show "\<exists>e \<in> set entries. name e = item @ ''/'' \<and> isDirectory e \<and>
          (directPostDates parse sub \<noteq> [] \<and> 0 < Max (set (directPostDates parse sub)) \<longrightarrow>
             DirectoryEntry.date e = toISODate (Max (set (directPostDates parse sub)))) \<and>
          (directPostDates parse sub = [] \<longrightarrow> DirectoryEntry.date e = toISODate now)"
    by (rule rev_bexI) (simp add: getDirectoryDateLoop_latest getDirectoryDateLoop_none)
next
  fix e
  assume "e \<in> set entries" and "isDirectory e"
  from directory_entry_origin [OF assms this]
  obtain item sub where m: "(item, Dir sub) \<in> set items" and
    e: "e = \<lparr>name = item @ ''/'', isDirectory = True, extension = [],
              DirectoryEntry.date =
                (if getDirectoryDateLoop parse sub 0 = 0 then toISODate now
                 else toISODate (getDirectoryDateLoop parse sub 0)),
              size' = 0, DirectoryEntry.description = indexDescription sub,
              href = ''/'' @ joinSegments (contentPath @ [item])\<rparr>"
    by blast
  have "name e = item @ ''/'' \<and>
          (directPostDates parse sub \<noteq> [] \<and> 0 < Max (set (directPostDates parse sub)) \<longrightarrow>
             DirectoryEntry.date e = toISODate (Max (set (directPostDates parse sub)))) \<and>
          (directPostDates parse sub = [] \<longrightarrow> DirectoryEntry.date e = toISODate now)"
    unfolding e by (simp add: getDirectoryDateLoop_latest getDirectoryDateLoop_none)
  then show "\<exists>item sub. (item, Dir sub) \<in> set items \<and> name e = item @ ''/'' \<and>
          (directPostDates parse sub \<noteq> [] \<and> 0 < Max (set (directPostDates parse sub)) \<longrightarrow>
             DirectoryEntry.date e = toISODate (Max (set (directPostDates parse sub)))) \<and>
          (directPostDates parse sub = [] \<longrightarrow> DirectoryEntry.date e = toISODate now)"
    using m by blast
qed

lemma resolve_sampleContent: "resolve sampleContent [] = Some (Dir sampleItems)"
  by (simp add: sampleContent_def)

lemma archives_listed: "(''archives'', Dir archivesItems) \<in> set sampleItems"
  by (simp add: sampleItems_def)

lemma indexDescription_archives: "indexDescription archivesItems = ''Old posts''"
  by (simp add: indexDescription_def archivesItems_def archivesIndexFile_def)

lemma directPostDates_archives:
  "directPostDates parseNothing archivesItems = [1749945600000, 1749945600000]"
  by (simp add: archivesItems_def hasPostExtension_examples postDate_def
      archivesIndexFile_def oldPostFile_def)

lemma readDirectory_drafts:
  "readDirectory parseNothing 1793664000000 (Dir [(''drafts'', Dir [])]) [] =
     Inr [\<lparr>name = ''drafts/'', isDirectory = True, extension = [],
           DirectoryEntry.date = ''2026-11-03'', size' = 0,
           DirectoryEntry.description = [], href = ''/drafts''\<rparr>]"
  by (simp add: readDirectory_Dir readDirectoryItem_def getDirectoryDate_Dir
      getDirectoryDescription_Dir joinSegments_def toISODate_2026_11_03)

theorem directory_entry_description_witness:
  "resolve sampleContent [] = Some (Dir sampleItems) \<and>
   readDirectory parseNothing 1793664000000 sampleContent [] =
     Inr [archivesEntry, deploymentEntry, helloEntry] \<and>
   (''archives'', Dir archivesItems) \<in> set sampleItems \<and>
   (\<exists>e \<in> set [archivesEntry, deploymentEntry, helloEntry].
      name e = ''archives/'' \<and> isDirectory e \<and>
      DirectoryEntry.description e = indexDescription archivesItems) \<and>
   indexDescription archivesItems = ''Old posts''"
proof -
  have "\<exists>e \<in> set [archivesEntry, deploymentEntry, helloEntry].
      name e = ''archives'' @ ''/'' \<and> isDirectory e \<and>
      DirectoryEntry.description e = indexDescription archivesItems"
    using directory_entry_description [OF resolve_sampleContent readDirectory_sampleContent]
      archives_listed
    by blast
  then show ?thesis
    using resolve_sampleContent readDirectory_sampleContent archives_listed
      indexDescription_archives
    by simp
qed

text \<open>
  The claim as it was stated fails for a subdirectory whose index post is \<open>index.md\<close>:
  the post has a description and the entry of the subdirectory has none.
\<close>

theorem index_md_counterexample:
  "hasPostExtension ''index.md'' \<and>
   description (data archivesIndexFile) = Some ''Old posts'' \<and>
   readDirectory parseNothing 1793664000000
     (Dir [(''notes'', Dir [(''index.md'', File archivesIndexFile)])]) [] =
     Inr [\<lparr>name = ''notes/'', isDirectory = True, extension = [],
           DirectoryEntry.date = ''2025-06-15'', size' = 0,
           DirectoryEntry.description = [], href = ''/notes''\<rparr>]"
  by (simp add: readDirectory_Dir readDirectoryItem_def getDirectoryDate_Dir
      getDirectoryDescription_Dir joinSegments_def hasPostExtension_examples
      archivesIndexFile_def toISODate_2025_06_15)

lemma directPostDates_posts:
  "directPostDates parseNothing postsItems = [1771545600000, 1771804800000]"
  by (simp add: postsItems_def hasPostExtension_examples postDate_def deploymentFile_def
      helloFile_def)

lemma readDirectory_posts:
  "readDirectory parseNothing 1793664000000 (Dir [(''posts'', Dir postsItems)]) [] =
     Inr [\<lparr>name = ''posts/'', isDirectory = True, extension = [],
           DirectoryEntry.date = ''2026-02-23'', size' = 0,
           DirectoryEntry.description = [], href = ''/posts''\<rparr>]"
  by (simp add: readDirectory_Dir readDirectoryItem_def getDirectoryDate_Dir
      getDirectoryDescription_Dir joinSegments_def postsItems_def hasPostExtension_examples
      deploymentFile_def helloFile_def toISODate_2026_02_23)

lemma directory_entry_date_example:
  "directPostDates parseNothing postsItems = [1771545600000, 1771804800000] \<and>
   Max (set (directPostDates parseNothing postsItems)) = 1771804800000 \<and>
   (\<exists>e \<in> set [\<lparr>name = ''posts/'', isDirectory = True, extension = [],
                  DirectoryEntry.date = ''2026-02-23'', size' = 0,
                  DirectoryEntry.description = [], href = ''/posts''\<rparr>].
      name e = ''posts/'' \<and> isDirectory e \<and>
      DirectoryEntry.date e = toISODate (Max (set (directPostDates parseNothing postsItems)))) \<and>
   toISODate 1771545600000 = ''2026-02-20'' \<and> toISODate 1771804800000 = ''2026-02-23'' \<and>
   directPostDates parseNothing [] = [] \<and>
   (\<exists>e \<in> set [\<lparr>name = ''drafts/'', isDirectory = True, extension = [],
                  DirectoryEntry.date = ''2026-11-03'', size' = 0,
                  DirectoryEntry.description = [], href = ''/drafts''\<rparr>].
      name e = ''drafts/'' \<and> isDirectory e \<and> DirectoryEntry.date e = toISODate 1793664000000)"
proof -
  have latest: "Max (set (directPostDates parseNothing postsItems)) = 1771804800000"
    by (simp add: directPostDates_posts)
  have nonempty: "directPostDates parseNothing postsItems \<noteq> []"
    and recent: "0 < Max (set (directPostDates parseNothing postsItems))"
    by (simp_all add: directPostDates_posts)
  have rp: "resolve (Dir [(''posts'', Dir postsItems)]) [] = Some (Dir [(''posts'', Dir postsItems)])"
    by simp
  have mp: "(''posts'', Dir postsItems) \<in> set [(''posts'', Dir postsItems)]" by simp
  have a: "\<exists>e \<in> set [\<lparr>name = ''posts/'', isDirectory = True, extension = [],
                  DirectoryEntry.date = ''2026-02-23'', size' = 0,
                  DirectoryEntry.description = [], href = ''/posts''\<rparr>].
      name e = ''posts'' @ ''/'' \<and> isDirectory e \<and>
      DirectoryEntry.date e = toISODate (Max (set (directPostDates parseNothing postsItems)))"
    using directory_entry_date [OF rp readDirectory_posts] mp nonempty recent by blast
  have r: "resolve (Dir [(''drafts'', Dir [])]) [] = Some (Dir [(''drafts'', Dir [])])"
    by simp
  have m: "(''drafts'', Dir []) \<in> set [(''drafts'', Dir [])]" by simp
  have none: "directPostDates parseNothing [] = []" by simp
  have b: "\<exists>e \<in> set [\<lparr>name = ''drafts/'', isDirectory = True, extension = [],
                  DirectoryEntry.date = ''2026-11-03'', size' = 0,
                  DirectoryEntry.description = [], href = ''/drafts''\<rparr>].
      name e = ''drafts'' @ ''/'' \<and> isDirectory e \<and> DirectoryEntry.date e = toISODate 1793664000000"
    using directory_entry_date [OF r readDirectory_drafts] m none by blast
  show ?thesis
    using directPostDates_posts latest a none b toISODate_2026_02_20 toISODate_2026_02_23
    by simp
qed

text \<open>
  Where it does not: \<open>latestDate\<close> starts at the epoch and the value 0 is taken to mean
  that no post was found, so a subdirectory whose post files are all dated at or before
  the epoch gets the current day.
\<close>

lemma getDirectoryDateLoop_sentinel:
  assumes "directPostDates parse sub \<noteq> []" and "Max (set (directPostDates parse sub)) \<le> 0"
  shows "getDirectoryDateLoop parse sub 0 = 0"
proof -
  have "Max (insert 0 (set (directPostDates parse sub))) =
      max 0 (Max (set (directPostDates parse sub)))"
    using assms(1) by simp
  then show ?thesis using assms(2) by (simp add: getDirectoryDateLoop_Max)
qed

lemma directory_entry_date_sentinel:
  assumes "resolve contentDir contentPath = Some (Dir items)"
    and "readDirectory parse now contentDir contentPath = Inr entries"
    and "(item, Dir sub) \<in> set items"
    and "directPostDates parse sub \<noteq> []" and "Max (set (directPostDates parse sub)) \<le> 0"
  shows "\<exists>e \<in> set entries. name e = item @ ''/'' \<and> isDirectory e \<and>
           DirectoryEntry.date e = toISODate now"
proof -
  have "\<lparr>name = item @ ''/'', isDirectory = True, extension = [],
          DirectoryEntry.date = toISODate now, size' = 0,
          DirectoryEntry.description = indexDescription sub,
          href = ''/'' @ joinSegments (contentPath @ [item])\<rparr> \<in> set entries"
    using directory_entry_listed [OF assms(1,2,3)]
      getDirectoryDateLoop_sentinel [OF assms(4,5)]
    by simp
  then show ?thesis by (rule rev_bexI) simp
qed

lemma apollo_names:
  "hasPostExtension ''apollo.md''" "stripPostExtension ''apollo.md'' = ''apollo''"
  "extname ''apollo.md'' = ''.md''"
proof -
  show post: "hasPostExtension ''apollo.md''"
    by (simp add: hasPostExtension_def endsWith_def)
  show "stripPostExtension ''apollo.md'' = ''apollo''"
    by (simp add: stripPostExtension_def endsWith_def)
  show "extname ''apollo.md'' = ''.md''"
    by (simp add: extname_post post endsWith_def)
qed

text \<open>
  C9: the entry of a subdirectory should have the most recent date among the direct post
  files of the subdirectory. The code fails this for a subdirectory \<open>history\<close> whose only
  post \<open>apollo.md\<close> is dated 1969-07-20: on 2026-11-03 the listing of the root gives the
  subdirectory the date 2026-11-03, while the listing of the subdirectory gives the post
  its own date 1969-07-20.
\<close>

theorem getDirectoryDate_before_epoch:
  "directPostDates parseNothing [(''apollo.md'', File apolloFile)] = [- 14256000000] \<and>
   toISODate (- 14256000000) = ''1969-07-20'' \<and>
   readDirectory parseNothing 1793664000000
     (Dir [(''history'', Dir [(''apollo.md'', File apolloFile)])]) [] =
     Inr [\<lparr>name = ''history/'', isDirectory = True, extension = [],
           DirectoryEntry.date = ''2026-11-03'', size' = 0,
           DirectoryEntry.description = [], href = ''/history''\<rparr>] \<and>
   readDirectory parseNothing 1793664000000
     (Dir [(''history'', Dir [(''apollo.md'', File apolloFile)])]) [''history''] =
     Inr [\<lparr>name = ''apollo.md'', isDirectory = False, extension = ''.md'',
           DirectoryEntry.date = ''1969-07-20'', size' = 68,
           DirectoryEntry.description = ''Moon landing'', href = ''/history/apollo''\<rparr>]"
proof -
  have dates: "directPostDates parseNothing [(''apollo.md'', File apolloFile)] =
      [- 14256000000]"
    by (simp add: apollo_names postDate_def apolloFile_def)
  have above: "readDirectory parseNothing 1793664000000
     (Dir [(''history'', Dir [(''apollo.md'', File apolloFile)])]) [] =
     Inr [\<lparr>name = ''history/'', isDirectory = True, extension = [],
           DirectoryEntry.date = ''2026-11-03'', size' = 0,
           DirectoryEntry.description = [], href = ''/history''\<rparr>]"
    by (simp add: readDirectory_Dir readDirectoryItem_def getDirectoryDate_Dir
        getDirectoryDescription_Dir joinSegments_def apollo_names apolloFile_def
        toISODate_2026_11_03)
  have inside: "readDirectory parseNothing 1793664000000
     (Dir [(''history'', Dir [(''apollo.md'', File apolloFile)])]) [''history''] =
     Inr [\<lparr>name = ''apollo.md'', isDirectory = False, extension = ''.md'',
           DirectoryEntry.date = ''1969-07-20'', size' = 68,
           DirectoryEntry.description = ''Moon landing'', href = ''/history/apollo''\<rparr>]"
    by (simp add: readDirectory_Dir readDirectoryItem_def joinSegments_def apollo_names
        apolloFile_def isoDay_def orElse_def toISODate_1969_07_20)
  show ?thesis using dates above inside toISODate_1969_07_20 by simp
qed

section \<open>readPost and isPost\<close>

lemma readPost_mdx:
  assumes "resolve contentDir (appendToPath p ''.mdx'') = Some (File f)"
  shows "readPost parse contentDir p = postDataOf parse p f"
  using assms
  by (simp add: readPost_def existsSync_def readFileSync_def postDataOf_def isoDay_def
      split: option.splits)

lemma readPost_md:
  assumes "resolve contentDir (appendToPath p ''.mdx'') = None"
    and "resolve contentDir (appendToPath p ''.md'') = Some (File f)"
  shows "readPost parse contentDir p = postDataOf parse p f"
  using assms
  by (simp add: readPost_def existsSync_def readFileSync_def postDataOf_def isoDay_def
      split: option.splits)


lemma readPost_selected:
  assumes "resolve contentDir (appendToPath p ''.mdx'') = Some (File f) \<or>
           (resolve contentDir (appendToPath p ''.mdx'') = None \<and>
            resolve contentDir (appendToPath p ''.md'') = Some (File f))"
  shows "readPost parse contentDir p = postDataOf parse p f"
  using assms readPost_mdx readPost_md by blast



lemma appendToPath_examples:
  "appendToPath [''notes''] ''.mdx'' = [''notes.mdx'']"
  "appendToPath [''notes''] ''.md'' = [''notes.md'']"
  "appendToPath [''untitled''] ''.mdx'' = [''untitled.mdx'']"
  "appendToPath [''untitled''] ''.md'' = [''untitled.md'']"
  "appendToPath [''plans''] ''.mdx'' = [''plans.mdx'']"
  "appendToPath [''plans''] ''.md'' = [''plans.md'']"
  "appendToPath [''drafts''] ''.mdx'' = [''drafts.mdx'']"
  "appendToPath [''drafts''] ''.md'' = [''drafts.md'']"
  "appendToPath [''bare''] ''.mdx'' = [''bare.mdx'']"
  "appendToPath [''bare''] ''.md'' = [''bare.md'']"
  "appendToPath [''archives'', ''old-post''] ''.mdx'' = [''archives'', ''old-post.mdx'']"
  "appendToPath [''archives'', ''index''] ''.mdx'' = [''archives'', ''index.mdx'']"
  "appendToPath [''archives'', ''index''] ''.md'' = [''archives'', ''index.md'']"
  by (simp_all add: appendToPath_def)

lemma postDataOf_helloFile:
  "postDataOf parse [''notes''] helloFile =
     Inr (Some \<lparr>PostData.title = ''Hello World'', PostData.description = ''First post'',
                PostData.date = ''2026-02-23'',
                PostData.content = ''\<newline># Hello World\<newline>'', slug = ''notes''\<rparr>)"
  by (simp add: postDataOf_def helloFile_def orElse_def toISODate_2026_02_23)



text \<open>
  C3 (amended): let \<open>f\<close> be the file that \<open>readPost\<close> selects for a path: the \<open>.mdx\<close> file,
  or the \<open>.md\<close> file when no \<open>.mdx\<close> path exists. If its metadata block has a title that
  is not empty, a description and a valid date, the post returned has that title, that
  description and the calendar day of that date. If the block has no date, the date
  returned is the empty string. Whenever a post is returned, its title is the final path
  segment if the block has no title or an empty one, and its description is the empty
  string if the block has no description.
\<close>

theorem readPost_round_trip:
  assumes "resolve contentDir (appendToPath p ''.mdx'') = Some (File f) \<or>
           (resolve contentDir (appendToPath p ''.mdx'') = None \<and>
            resolve contentDir (appendToPath p ''.md'') = Some (File f))"
  shows "(title (data f) = Some t \<and> t \<noteq> [] \<and> description (data f) = Some d \<and>
          date (data f) = Some v \<and> truthy (Some v) \<and> newDate parse (Some v) = Some ms \<longrightarrow>
            (\<exists>post. readPost parse contentDir p = Inr (Some post) \<and>
               PostData.title post = t \<and> PostData.description post = d \<and>
               PostData.date post = toISODate ms)) \<and>
         (date (data f) = None \<longrightarrow>
            (\<exists>post. readPost parse contentDir p = Inr (Some post) \<and> PostData.date post = [])) \<and>
         (\<forall>post. readPost parse contentDir p = Inr (Some post) \<longrightarrow>
            ((title (data f) = None \<or> title (data f) = Some []) \<longrightarrow>
               PostData.title post = basename p) \<and>
            (description (data f) = None \<longrightarrow> PostData.description post = []))"
proof -
  have r: "readPost parse contentDir p = postDataOf parse p f"
    using assms by (rule readPost_selected)
  show ?thesis
    unfolding r
    by (auto simp: postDataOf_def orElse_def split: if_splits option.splits)
qed

theorem readPost_round_trip_witness:
  "resolve sampleContent (appendToPath [''archives'', ''old-post''] ''.mdx'') =
     Some (File oldPostFile) \<and>
   (\<exists>post. readPost parseNothing sampleContent [''archives'', ''old-post''] = Inr (Some post) \<and>
      PostData.title post = ''An Old Post'' \<and>
      PostData.description post = ''From the archives'' \<and>
      PostData.date post = ''2025-06-15'') \<and>
   resolve sampleContent (appendToPath [''archives'', ''index''] ''.mdx'') =
     Some (File archivesIndexFile) \<and>
   (\<exists>post. readPost parseNothing sampleContent [''archives'', ''index''] = Inr (Some post) \<and>
      PostData.date post = []) \<and>
   resolve shadowedContent (appendToPath [''bare''] ''.mdx'') = None \<and>
   resolve shadowedContent (appendToPath [''bare''] ''.md'') = Some (File bareFile) \<and>
   readPost parseNothing shadowedContent [''bare''] =
     Inr (Some \<lparr>PostData.title = ''bare'', PostData.description = [], PostData.date = [],
                PostData.content = ''Just text\<newline>'', slug = ''bare''\<rparr>) \<and>
   ''bare'' = basename [''bare'']"
proof -
  have old: "resolve sampleContent (appendToPath [''archives'', ''old-post''] ''.mdx'') =
      Some (File oldPostFile)"
    by (simp add: appendToPath_examples sampleContent_def sampleItems_def archivesItems_def)
  have "\<exists>post. readPost parseNothing sampleContent [''archives'', ''old-post''] =
        Inr (Some post) \<and>
      PostData.title post = ''An Old Post'' \<and>
      PostData.description post = ''From the archives'' \<and>
      PostData.date post = toISODate 1749945600000"
    using readPost_round_trip
      [of sampleContent "[''archives'', ''old-post'']" oldPostFile "''An Old Post''"
        "''From the archives''" "DateObject 1749945600000" parseNothing 1749945600000]
      old
    by (simp add: oldPostFile_def)
  then have a: "\<exists>post. readPost parseNothing sampleContent [''archives'', ''old-post''] =
        Inr (Some post) \<and>
      PostData.title post = ''An Old Post'' \<and>
      PostData.description post = ''From the archives'' \<and>
      PostData.date post = ''2025-06-15''"
    by (simp add: toISODate_2025_06_15)
  have index: "resolve sampleContent (appendToPath [''archives'', ''index''] ''.mdx'') =
      Some (File archivesIndexFile)"
    by (simp add: appendToPath_examples sampleContent_def sampleItems_def archivesItems_def)
  have b: "\<exists>post. readPost parseNothing sampleContent [''archives'', ''index''] =
        Inr (Some post) \<and> PostData.date post = []"
    using readPost_round_trip
      [of sampleContent "[''archives'', ''index'']" archivesIndexFile _ _ _ parseNothing]
      index
    by (simp add: archivesIndexFile_def)
  have bare: "resolve shadowedContent (appendToPath [''bare''] ''.mdx'') = None"
    "resolve shadowedContent (appendToPath [''bare''] ''.md'') = Some (File bareFile)"
    by (simp_all add: appendToPath_examples shadowedContent_def)
  have post: "readPost parseNothing shadowedContent [''bare''] =
     Inr (Some \<lparr>PostData.title = ''bare'', PostData.description = [], PostData.date = [],
                PostData.content = ''Just text\<newline>'', slug = ''bare''\<rparr>)"
    using bare
    by (simp add: readPost_md postDataOf_def bareFile_def orElse_def basename_def)
  have c: "''bare'' = basename [''bare'']"
    using readPost_round_trip [of shadowedContent "[''bare'']" bareFile _ _ _ parseNothing]
      bare post
    by (simp add: bareFile_def)
  show ?thesis using old a index b bare post c by blast
qed

text \<open>
  The claim as it was stated fails on three files with a title, a date and a
  description: a \<open>.md\<close> file beside a \<open>.mdx\<close> file of the same name, whose path gives the
  data of the \<open>.mdx\<close> file; a file whose title is the empty string, which gets the path
  segment as its title; and a file whose date is not a date, for which \<open>readPost\<close>
  throws.
\<close>

theorem readPost_round_trip_counterexample:
  "resolve shadowedContent [''notes.md''] = Some (File oldPostFile) \<and>
   title (data oldPostFile) = Some ''An Old Post'' \<and>
   readPost parseNothing shadowedContent [''notes''] =
     Inr (Some \<lparr>PostData.title = ''Hello World'', PostData.description = ''First post'',
                PostData.date = ''2026-02-23'',
                PostData.content = ''\<newline># Hello World\<newline>'', slug = ''notes''\<rparr>) \<and>
   resolve shadowedContent [''untitled.md''] = Some (File untitledFile) \<and>
   data untitledFile =
     \<lparr>title = Some [], description = Some ''Draft'', date = Some (DateObject 1771804800000)\<rparr> \<and>
   readPost parseNothing shadowedContent [''untitled''] =
     Inr (Some \<lparr>PostData.title = ''untitled'', PostData.description = ''Draft'',
                PostData.date = ''2026-02-23'', PostData.content = [], slug = ''untitled''\<rparr>) \<and>
   resolve shadowedContent [''plans.md''] = Some (File soonFile) \<and>
   data soonFile =
     \<lparr>title = Some ''Plans'', description = Some ''To do'', date = Some (DateString ''soon'')\<rparr> \<and>
   readPost parseNothing shadowedContent [''plans''] = Inl RangeError"
proof -
  have shadow: "resolve shadowedContent (appendToPath [''notes''] ''.mdx'') = Some (File helloFile)"
    by (simp add: appendToPath_examples shadowedContent_def)
  have untitled: "resolve shadowedContent (appendToPath [''untitled''] ''.mdx'') = None"
    "resolve shadowedContent (appendToPath [''untitled''] ''.md'') = Some (File untitledFile)"
    by (simp_all add: appendToPath_examples shadowedContent_def)
  have plans: "resolve shadowedContent (appendToPath [''plans''] ''.mdx'') = None"
    "resolve shadowedContent (appendToPath [''plans''] ''.md'') = Some (File soonFile)"
    by (simp_all add: appendToPath_examples shadowedContent_def)
  have a: "readPost parseNothing shadowedContent [''notes''] =
     Inr (Some \<lparr>PostData.title = ''Hello World'', PostData.description = ''First post'',
                PostData.date = ''2026-02-23'',
                PostData.content = ''\<newline># Hello World\<newline>'', slug = ''notes''\<rparr>)"
    using shadow by (simp add: readPost_mdx postDataOf_helloFile)
  have b: "readPost parseNothing shadowedContent [''untitled''] =
     Inr (Some \<lparr>PostData.title = ''untitled'', PostData.description = ''Draft'',
                PostData.date = ''2026-02-23'', PostData.content = [], slug = ''untitled''\<rparr>)"
    using untitled
    by (simp add: readPost_md postDataOf_def untitledFile_def orElse_def basename_def
        toISODate_2026_02_23)
  have c: "readPost parseNothing shadowedContent [''plans''] = Inl RangeError"
    using plans by (simp add: readPost_md postDataOf_def soonFile_def parseNothing_def)
  have d: "resolve shadowedContent [''notes.md''] = Some (File oldPostFile)"
    "resolve shadowedContent [''untitled.md''] = Some (File untitledFile)"
    "resolve shadowedContent [''plans.md''] = Some (File soonFile)"
    by (simp_all add: shadowedContent_def)
  have e: "title (data oldPostFile) = Some ''An Old Post''"
    "data untitledFile =
     \<lparr>title = Some [], description = Some ''Draft'', date = Some (DateObject 1771804800000)\<rparr>"
    "data soonFile =
     \<lparr>title = Some ''Plans'', description = Some ''To do'', date = Some (DateString ''soon'')\<rparr>"
    by (simp_all add: oldPostFile_def untitledFile_def soonFile_def)
  show ?thesis using a b c d e by simp
qed

section \<open>getAllPaths\<close>

lemma walk_routes: "walk items segments = map route (filter routable (descendants items segments))"
  by (induction items segments rule: walk.induct) (simp_all add: route_def routable_def)

lemma descendants_prefix:
  "(p, n) \<in> set (descendants items segments) \<Longrightarrow>
   \<exists>s q. p = segments @ s # q \<and> s \<in> fst ` set items"
proof (induction items segments rule: descendants.induct)
  case (1 segments)
  then show ?case by simp
next
  case (2 item sub items segments)
  from "2.prems" consider "p = segments @ [item]"
    | "(p, n) \<in> set (descendants sub (segments @ [item]))"
    | "(p, n) \<in> set (descendants items segments)"
    by auto
  then show ?case
  proof cases
    case 1
    then show ?thesis by auto
  next
    case 2
    then obtain s q where "p = (segments @ [item]) @ s # q" using "2.IH"(1) by blast
    then show ?thesis by auto
  next
    case 3
    then show ?thesis using "2.IH"(2) by auto
  qed
next
  case (3 item f items segments)
  then show ?case by auto
qed

lemma descendants_child:
  "(s, child) \<in> set items \<Longrightarrow> (segments @ [s], child) \<in> set (descendants items segments)"
  by (induction items segments rule: descendants.induct) auto

lemma descendants_below:
  "(s, Dir sub) \<in> set items \<Longrightarrow>
   set (descendants sub (segments @ [s])) \<subseteq> set (descendants items segments)"
  by (induction items segments rule: descendants.induct) auto

lemma descendants_complete:
  "q \<noteq> [] \<Longrightarrow> resolve (Dir items) q = Some n \<Longrightarrow>
   (segments @ q, n) \<in> set (descendants items segments)"
proof (induction q arbitrary: items segments)
  case Nil
  then show ?case by simp
next
  case (Cons s ss)
  from Cons.prems(2) obtain child where c: "map_of items s = Some child"
    and r: "resolve child ss = Some n"
    by (auto split: option.splits)
  have m: "(s, child) \<in> set items" using c by (rule map_of_SomeD)
  show ?case
  proof (cases "ss = []")
    case True
    then show ?thesis using r m descendants_child [of s child items segments] by simp
  next
    case False
    then obtain sub where d: "child = Dir sub" using r by (cases child; cases ss) auto
    have "((segments @ [s]) @ ss, n) \<in> set (descendants sub (segments @ [s]))"
      using Cons.IH [of sub "segments @ [s]"] r d False by simp
    then show ?thesis using descendants_below [of s sub items segments] m d by auto
  qed
qed

lemma resolve_Cons_other:
  "s \<noteq> item \<Longrightarrow> resolve (Dir ((item, child) # items)) (s # ss) = resolve (Dir items) (s # ss)"
  by simp

lemma descendants_sound:
  "wellFormed (Dir items) \<Longrightarrow> (p, n) \<in> set (descendants items segments) \<Longrightarrow>
   \<exists>q. p = segments @ q \<and> q \<noteq> [] \<and> resolve (Dir items) q = Some n"
proof (induction items segments arbitrary: p n rule: descendants.induct)
  case (1 segments)
  then show ?case by simp
next
  case (2 item sub items segments)
  have wfsub: "wellFormed (Dir sub)" and wfrest: "wellFormed (Dir items)"
    and fresh: "item \<notin> fst ` set items"
    using "2.prems"(1) by auto
  from "2.prems"(2) consider "p = segments @ [item] \<and> n = Dir sub"
    | "(p, n) \<in> set (descendants sub (segments @ [item]))"
    | "(p, n) \<in> set (descendants items segments)"
    by auto
  then show ?case
  proof cases
    case 1
    then have "p = segments @ [item] \<and> [item] \<noteq> [] \<and>
        resolve (Dir ((item, Dir sub) # items)) [item] = Some n"
      by simp
    then show ?thesis by blast
  next
    case 2
    then obtain q where q: "p = (segments @ [item]) @ q" "q \<noteq> []"
      "resolve (Dir sub) q = Some n"
      using "2.IH"(1) [OF wfsub] by blast
    then have "p = segments @ (item # q) \<and> item # q \<noteq> [] \<and>
        resolve (Dir ((item, Dir sub) # items)) (item # q) = Some n"
      by simp
    then show ?thesis by blast
  next
    case 3
    then obtain q where q: "p = segments @ q" "q \<noteq> []" "resolve (Dir items) q = Some n"
      using "2.IH"(2) [OF wfrest] by blast
    obtain s ss where c: "q = s # ss" using q(2) by (cases q) auto
    have "s \<in> fst ` set items"
      using q(3) c by (auto split: option.splits dest!: map_of_SomeD intro: rev_image_eqI)
    then have "s \<noteq> item" using fresh by auto
    then have "resolve (Dir ((item, Dir sub) # items)) q = Some n"
      using q(3) c by simp
    then show ?thesis using q(1,2) by blast
  qed
next
  case (3 item f items segments)
  have wfrest: "wellFormed (Dir items)" and fresh: "item \<notin> fst ` set items"
    using "3.prems"(1) by auto
  from "3.prems"(2) consider "p = segments @ [item] \<and> n = File f"
    | "(p, n) \<in> set (descendants items segments)"
    by auto
  then show ?case
  proof cases
    case 1
    then have "p = segments @ [item] \<and> [item] \<noteq> [] \<and>
        resolve (Dir ((item, File f) # items)) [item] = Some n"
      by simp
    then show ?thesis by blast
  next
    case 2
    then obtain q where q: "p = segments @ q" "q \<noteq> []" "resolve (Dir items) q = Some n"
      using "3.IH" [OF wfrest] by blast
    obtain s ss where c: "q = s # ss" using q(2) by (cases q) auto
    have "s \<in> fst ` set items"
      using q(3) c by (auto split: option.splits dest!: map_of_SomeD intro: rev_image_eqI)
    then have "s \<noteq> item" using fresh by auto
    then have "resolve (Dir ((item, File f) # items)) q = Some n"
      using q(3) c by simp
    then show ?thesis using q(1,2) by blast
  qed
qed

section \<open>Distinct paths\<close>

lemma descendants_distinct:
  "wellFormed (Dir items) \<Longrightarrow> distinct (map fst (descendants items segments))"
proof (induction items segments rule: descendants.induct)
  case (1 segments)
  show ?case by simp
next
  case (2 item sub items segments)
  have wfsub: "wellFormed (Dir sub)" and wfrest: "wellFormed (Dir items)"
    and fresh: "item \<notin> fst ` set items"
    using "2.prems" by auto
  have below: "\<exists>s q. p = (segments @ [item]) @ s # q"
    if "p \<in> fst ` set (descendants sub (segments @ [item]))" for p
    using that descendants_prefix [of p _ sub "segments @ [item]"] by force
  have beside: "\<exists>s q. p = segments @ s # q \<and> s \<noteq> item"
    if "p \<in> fst ` set (descendants items segments)" for p
    using that descendants_prefix [of p _ items segments] fresh by force
  have a: "segments @ [item] \<notin> fst ` set (descendants sub (segments @ [item]))"
    using below by force
  have b: "segments @ [item] \<notin> fst ` set (descendants items segments)"
    using beside by force
  have c: "fst ` set (descendants sub (segments @ [item])) \<inter>
      fst ` set (descendants items segments) = {}"
  proof (rule ccontr)
    assume "\<not> ?thesis"
    then obtain p where p1: "p \<in> fst ` set (descendants sub (segments @ [item]))"
      and p2: "p \<in> fst ` set (descendants items segments)"
      by blast
    from below [OF p1] beside [OF p2] show False by auto
  qed
  show ?case
    using a b c "2.IH"(1) [OF wfsub] "2.IH"(2) [OF wfrest] by simp
next
  case (3 item f items segments)
  have wfrest: "wellFormed (Dir items)" and fresh: "item \<notin> fst ` set items"
    using "3.prems" by auto
  have beside: "\<exists>s q. p = segments @ s # q \<and> s \<noteq> item"
    if "p \<in> fst ` set (descendants items segments)" for p
    using that descendants_prefix [of p _ items segments] fresh by force
  have b: "segments @ [item] \<notin> fst ` set (descendants items segments)"
    using beside by force
  show ?case using b "3.IH" [OF wfrest] by simp
qed

lemma walk_prefix:
  "p \<in> set (walk items segments) \<Longrightarrow>
   \<exists>s q. p = segments @ s # q \<and> s \<in> set (routeNames items)"
proof (induction items segments rule: walk.induct)
  case (1 segments)
  then show ?case by simp
next
  case (2 item sub items segments)
  from "2.prems" consider "p = segments @ [item]"
    | "p \<in> set (walk sub (segments @ [item]))"
    | "p \<in> set (walk items segments)"
    by auto
  then show ?case
  proof cases
    case 1
    then show ?thesis by auto
  next
    case 2
    then obtain s q where "p = (segments @ [item]) @ s # q" using "2.IH"(1) by blast
    then show ?thesis by auto
  next
    case 3
    then show ?thesis using "2.IH"(2) by auto
  qed
next
  case (3 item f items segments)
  then show ?case by (auto split: if_splits)
qed

lemma walk_distinct: "uniqueRoutes items \<Longrightarrow> distinct (walk items segments)"
proof (induction items segments rule: walk.induct)
  case (1 segments)
  show ?case by simp
next
  case (2 item sub items segments)
  have fresh: "item \<notin> set (routeNames items)" and usub: "uniqueRoutes sub"
    and urest: "uniqueRoutes items"
    using "2.prems" by auto
  have below: "\<exists>s q. p = (segments @ [item]) @ s # q"
    if "p \<in> set (walk sub (segments @ [item]))" for p
    using that walk_prefix [of p sub "segments @ [item]"] by blast
  have beside: "\<exists>s q. p = segments @ s # q \<and> s \<noteq> item"
    if "p \<in> set (walk items segments)" for p
    using that walk_prefix [of p items segments] fresh by blast
  have a: "segments @ [item] \<notin> set (walk sub (segments @ [item]))"
    using below by force
  have b: "segments @ [item] \<notin> set (walk items segments)"
    using beside by force
  have c: "set (walk sub (segments @ [item])) \<inter> set (walk items segments) = {}"
  proof (rule ccontr)
    assume "\<not> ?thesis"
    then obtain p where p1: "p \<in> set (walk sub (segments @ [item]))"
      and p2: "p \<in> set (walk items segments)"
      by blast
    from below [OF p1] beside [OF p2] show False by auto
  qed
  show ?case using a b c "2.IH"(1) [OF usub] "2.IH"(2) [OF urest] by simp
next
  case (3 item f items segments)
  have urest: "uniqueRoutes items" using "3.prems" by simp
  show ?case
  proof (cases "hasPostExtension item")
    case False
    then show ?thesis using "3.IH" [OF urest] by simp
  next
    case True
    then have fresh: "stripPostExtension item \<notin> set (routeNames items)"
      using "3.prems" by simp
    have "segments @ [stripPostExtension item] \<notin> set (walk items segments)"
      using walk_prefix [of "segments @ [stripPostExtension item]" items segments] fresh
      by auto
    then show ?thesis using True "3.IH" [OF urest] by simp
  qed
qed

text \<open>
  C2 (amended): for a content tree whose root is a directory, \<open>getAllPaths\<close> returns the
  routes of the directories and post files reachable from the root, in pre-order: each
  node below the root is reached by exactly one path, every directory contributes that
  path and every post file contributes it with the extension stripped from the file
  name, and nothing else is returned. Two nodes may contribute the same route; the
  paths returned are distinct when no directory holds two children with the same route
  name.
\<close>

theorem getAllPaths_enumeration:
  assumes "wellFormed (Dir items)"
  shows "getAllPaths (Dir items) = Inr (map route (filter routable (descendants items []))) \<and>
         distinct (map fst (descendants items [])) \<and>
         (\<forall>p n. (p, n) \<in> set (descendants items []) \<longleftrightarrow>
            p \<noteq> [] \<and> resolve (Dir items) p = Some n) \<and>
         (uniqueRoutes items \<longrightarrow> distinct (map route (filter routable (descendants items []))))"
proof (intro conjI allI impI)
  show "getAllPaths (Dir items) = Inr (map route (filter routable (descendants items [])))"
    by (simp add: getAllPaths_def readdirSync_def walk_routes)
next
  show "distinct (map fst (descendants items []))"
    using assms by (rule descendants_distinct)
next
  fix p n
  show "(p, n) \<in> set (descendants items []) \<longleftrightarrow> p \<noteq> [] \<and> resolve (Dir items) p = Some n"
  proof
    assume "(p, n) \<in> set (descendants items [])"
    then show "p \<noteq> [] \<and> resolve (Dir items) p = Some n"
      using descendants_sound [OF assms, of p n "[]"] by auto
  next
    assume "p \<noteq> [] \<and> resolve (Dir items) p = Some n"
    then show "(p, n) \<in> set (descendants items [])"
      using descendants_complete [of p items n "[]"] by simp
  qed
next
  assume "uniqueRoutes items"
  then have "distinct (walk items [])" by (rule walk_distinct)
  then show "distinct (map route (filter routable (descendants items [])))"
    by (simp add: walk_routes)
qed

section \<open>getAllPaths on the example data\<close>

lemma post_names:
  "hasPostExtension ''bare.md''" "stripPostExtension ''bare.md'' = ''bare''"
  "hasPostExtension ''notes.md''" "stripPostExtension ''notes.md'' = ''notes''"
  "hasPostExtension ''notes.mdx''" "stripPostExtension ''notes.mdx'' = ''notes''"
  "hasPostExtension ''plans.md''" "stripPostExtension ''plans.md'' = ''plans''"
  "hasPostExtension ''untitled.md''" "stripPostExtension ''untitled.md'' = ''untitled''"
  "stripPostExtension ''index.mdx'' = ''index''"
  "stripPostExtension ''old-post.mdx'' = ''old-post''"
  by (simp_all add: hasPostExtension_def stripPostExtension_def endsWith_def)

lemma wellFormed_sampleItems: "wellFormed (Dir sampleItems)"
  using wellFormed_sampleContent by (simp add: sampleContent_def)

lemma uniqueRoutes_sampleItems: "uniqueRoutes sampleItems"
  by (simp add: sampleItems_def archivesItems_def hasPostExtension_examples
      stripPostExtension_examples post_names)

lemma routes_sampleItems:
  "map route (filter routable (descendants sampleItems [])) =
     [[''archives''], [''archives'', ''index''], [''archives'', ''old-post''],
      [''deployment-strategies''], [''hello-world'']]"
  by (simp add: sampleItems_def archivesItems_def route_def routable_def
      hasPostExtension_examples stripPostExtension_examples post_names)

theorem getAllPaths_enumeration_witness:
  "wellFormed (Dir sampleItems) \<and> uniqueRoutes sampleItems \<and>
   getAllPaths (Dir sampleItems) =
     Inr [[''archives''], [''archives'', ''index''], [''archives'', ''old-post''],
          [''deployment-strategies''], [''hello-world'']] \<and>
   distinct (map fst (descendants sampleItems [])) \<and>
   distinct [[''archives''], [''archives'', ''index''], [''archives'', ''old-post''],
             [''deployment-strategies''], [''hello-world'']] \<and>
   ([''archives'', ''old-post.mdx''], File oldPostFile) \<in> set (descendants sampleItems []) \<and>
   resolve (Dir sampleItems) [''archives'', ''old-post.mdx''] = Some (File oldPostFile)"
proof -
  note t = getAllPaths_enumeration [OF wellFormed_sampleItems]
  have r: "resolve (Dir sampleItems) [''archives'', ''old-post.mdx''] = Some (File oldPostFile)"
    by (simp add: sampleItems_def archivesItems_def)
  have a: "getAllPaths (Dir sampleItems) =
      Inr (map route (filter routable (descendants sampleItems [])))"
    using t by blast
  have b: "distinct (map fst (descendants sampleItems []))" using t by blast
  have c: "distinct (map route (filter routable (descendants sampleItems [])))"
    using t uniqueRoutes_sampleItems by blast
  have d: "([''archives'', ''old-post.mdx''], File oldPostFile) \<in>
      set (descendants sampleItems [])"
    using t r by blast
  show ?thesis
    using wellFormed_sampleItems uniqueRoutes_sampleItems a b c d r
    unfolding routes_sampleItems by blast
qed

text \<open>
  The claim as it was stated fails for a directory that holds \<open>notes.md\<close> and
  \<open>notes.mdx\<close>: the path \<open>notes\<close> is returned twice.
\<close>

theorem getAllPaths_duplicate_counterexample:
  "wellFormed shadowedContent \<and>
   getAllPaths shadowedContent =
     Inr [[''bare''], [''notes''], [''notes''], [''plans''], [''untitled'']] \<and>
   \<not> distinct [[''bare''], [''notes''], [''notes''], [''plans''], [''untitled'']]"
  by (simp add: shadowedContent_def validName_def getAllPaths_def readdirSync_def post_names)

end
